theory Spec2Isabelle
  imports Main "HOL-Library.AList" "HOL-Library.Sublist"
begin

section \<open>The privilege-ring manager of pkg/capabilities/capabilities.go\<close>

text \<open>
  The Go package keeps one \<open>Capabilities\<close> value (the singleton \<open>Caps\<close>) and drives
  the process capability state through the libcap bindings (\<open>cap.GetPID\<close>,
  \<open>cap.SetFlag\<close>, \<open>cap.SetProc\<close>, \<open>cap.DropBound\<close>). The embedding passes the
  manager and the outside world explicitly: every method takes the pair of both and
  returns the updated pair. A Go panic and a call that never returns (locking a mutex
  that is already held) are outcomes of their own. Calls to \<open>logger.Debug\<close> have no
  effect on either state and are left out.
\<close>

subsection \<open>Outcomes, errors\<close>

datatype 'a outcome = Returns 'a | Panics | Blocks

datatype lib_error = ErrBadSet | Errno nat

text \<open>
  The values of Go's \<open>error\<close> that the package builds with \<open>fmt.Errorf\<close>, the raw
  library error that \<open>apply\<close> hands on from \<open>SetFlag\<close>, and any other error a callback
  may return.
\<close>

datatype error =
    couldNotFindCapability string
  | couldNotReadPerfEventParanoid
  | couldNotSetProc lib_error
  | couldNotGetProc lib_error
  | alreadyInitialized
  | LibError lib_error
  | OtherError string

subsection \<open>The platform and the world outside the manager\<close>

type_synonym cap_Value = nat

text \<open>
  \<open>cap.IPC_LOCK\<close> and the others are constants of the libcap package, numbered as
  in the Linux ABI (\<open>linux/capability.h\<close>).
\<close>

definition cap_IPC_LOCK :: cap_Value where "cap_IPC_LOCK = 14"
definition cap_SYS_ADMIN :: cap_Value where "cap_SYS_ADMIN = 21"
definition cap_SYS_RESOURCE :: cap_Value where "cap_SYS_RESOURCE = 24"
definition cap_PERFMON :: cap_Value where "cap_PERFMON = 38"
definition cap_BPF :: cap_Value where "cap_BPF = 39"

datatype cap_Flag = Effective | Permitted | Inheritable

text \<open>A \<open>cap.Set\<close>: for each flag vector, the capability values whose bit is raised.\<close>

type_synonym cap_Set = "cap_Flag \<Rightarrow> cap_Value set"

text \<open>
  What the running platform fixes once and for all: the number of capability values
  (\<open>cap.MaxBits()\<close>), their names (\<open>Value.String()\<close>), and
  \<open>strconv.ParseInt(s, 0, 16)\<close> of the Go standard library (\<open>None\<close> for a parse
  error).
\<close>

record platform =
  MaxBits :: cap_Value
  cap_String :: "cap_Value \<Rightarrow> string"
  ParseInt :: "string \<Rightarrow> int option"

datatype os_call = OsGetPID | OsSetProc | OsDropBound cap_Value

text \<open>
  The world: the capability state of the process in the kernel, its bounding set, the
  content of \<open>/proc/sys/kernel/perf_event_paranoid\<close> (\<open>None\<close> when the file cannot be
  read), the log of the capability calls made so far, and a schedule that decides which
  of the coming library calls fail. Each call of \<open>cap.GetPID\<close>, \<open>cap.SetFlag\<close>,
  \<open>cap.SetProc\<close> and \<open>cap.DropBound\<close> takes the head of the schedule: \<open>Some e\<close>
  makes the call fail with \<open>e\<close>, \<open>None\<close> lets it succeed, and an exhausted schedule
  lets every call succeed. Why a call fails (a denied \<open>capset\<close>, a value the library
  refuses) is thereby left to the environment, and a statement proved for every schedule
  holds for whatever the library and the kernel do. The methods of a nil \<open>cap.Set\<close>
  fail with \<open>ErrBadSet\<close> without reaching the kernel.
\<close>

record world =
  proc_caps :: cap_Set
  proc_bound :: "cap_Value set"
  perf_event_paranoid :: "string option"
  faults :: "lib_error option list"
  oslog :: "os_call list"

definition next_fault :: "world \<Rightarrow> lib_error option \<times> world" where
  "next_fault w = (case faults w of [] \<Rightarrow> (None, w) | f # fs \<Rightarrow> (f, w\<lparr>faults := fs\<rparr>))"

definition cap_GetPID :: "world \<Rightarrow> cap_Set option \<times> lib_error option \<times> world" where
  "cap_GetPID w =
     (case next_fault w of (f, w1) \<Rightarrow>
        (case f of
           Some e \<Rightarrow> (None, Some e, w1\<lparr>oslog := oslog w1 @ [OsGetPID]\<rparr>)
         | None \<Rightarrow> (Some (proc_caps w1), None, w1\<lparr>oslog := oslog w1 @ [OsGetPID]\<rparr>)))"

definition cap_SetFlag ::
  "cap_Set option \<Rightarrow> cap_Flag \<Rightarrow> bool \<Rightarrow> cap_Value \<Rightarrow> world \<Rightarrow> lib_error option \<times> cap_Set option \<times> world" where
  "cap_SetFlag s vec enable val w =
     (case s of
        None \<Rightarrow> (Some ErrBadSet, None, w)
      | Some flags \<Rightarrow>
          (case next_fault w of (f, w1) \<Rightarrow>
             (case f of
                Some e \<Rightarrow> (Some e, Some flags, w1)
              | None \<Rightarrow>
                  (None,
                   Some (flags(vec := (if enable then insert val (flags vec) else flags vec - {val}))),
                   w1))))"

definition cap_GetFlag :: "cap_Set option \<Rightarrow> cap_Flag \<Rightarrow> cap_Value \<Rightarrow> bool \<times> lib_error option" where
  "cap_GetFlag s vec val =
     (case s of None \<Rightarrow> (False, Some ErrBadSet) | Some flags \<Rightarrow> (val \<in> flags vec, None))"

definition cap_SetProc :: "cap_Set option \<Rightarrow> world \<Rightarrow> lib_error option \<times> world" where
  "cap_SetProc s w =
     (case s of
        None \<Rightarrow> (Some ErrBadSet, w)
      | Some flags \<Rightarrow>
          (case next_fault w of (f, w1) \<Rightarrow>
             (case f of
                Some e \<Rightarrow> (Some e, w1\<lparr>oslog := oslog w1 @ [OsSetProc]\<rparr>)
              | None \<Rightarrow> (None, w1\<lparr>proc_caps := flags, oslog := oslog w1 @ [OsSetProc]\<rparr>))))"

definition cap_DropBound :: "cap_Value \<Rightarrow> world \<Rightarrow> lib_error option \<times> world" where
  "cap_DropBound val w =
     (case next_fault w of (f, w1) \<Rightarrow>
        (case f of
           Some e \<Rightarrow> (Some e, w1\<lparr>oslog := oslog w1 @ [OsDropBound val]\<rparr>)
         | None \<Rightarrow>
             (None, w1\<lparr>proc_bound := proc_bound w1 - {val}, oslog := oslog w1 @ [OsDropBound val]\<rparr>)))"

subsection \<open>The manager\<close>

datatype ringType = Privileged | Required | Requested | Unprivileged

datatype Mutex = Unlocked | Locked

text \<open>
  The struct \<open>Capabilities\<close>. The field \<open>have\<close> is \<open>have_set\<close> here; a nil pointer is
  \<open>None\<close>. The Go map \<open>all\<close> is an association list with the keys in the order of
  their insertion; a nil map has no entry, as in Go every read of it finds none. Go
  leaves the order in which \<open>range\<close> visits a map open; here it is the order of the
  list. An inner map is a partial function: a ring that was never written reads as
  \<open>false\<close>.
\<close>

record Capabilities =
  have_set :: "cap_Set option"
  all :: "(cap_Value \<times> (ringType \<rightharpoonup> bool)) list"
  bypass :: bool
  initialized :: bool
  lock :: "Mutex option"

text \<open>The zero value \<open>Capabilities{}\<close>.\<close>

definition Capabilities_zero :: Capabilities where
  "Capabilities_zero =
     \<lparr>have_set = None, all = [], bypass = False, initialized = False, lock = None\<rparr>"

text \<open>Reading \<open>v[t]\<close> from an inner map, and \<open>c.all[k][t]\<close> from the table.\<close>

definition ring_flag :: "(ringType \<rightharpoonup> bool) \<Rightarrow> ringType \<Rightarrow> bool" where
  "ring_flag v t = (case v t of None \<Rightarrow> False | Some b \<Rightarrow> b)"

definition Membership :: "Capabilities \<Rightarrow> cap_Value \<Rightarrow> ringType \<Rightarrow> bool" where
  "Membership c k t = (case map_of (all c) k of None \<Rightarrow> False | Some v \<Rightarrow> ring_flag v t)"

text \<open>
  \<open>sync.Mutex\<close> behind a pointer: a nil pointer panics, locking a held mutex blocks
  for good (nothing else runs here that could release it), unlocking a free mutex is fatal.
\<close>

definition Mutex_Lock :: "Mutex option \<Rightarrow> Mutex option outcome" where
  "Mutex_Lock l =
     (case l of None \<Rightarrow> Panics | Some Locked \<Rightarrow> Blocks | Some Unlocked \<Rightarrow> Returns (Some Locked))"

definition Mutex_Unlock :: "Mutex option \<Rightarrow> Mutex option outcome" where
  "Mutex_Unlock l =
     (case l of None \<Rightarrow> Panics | Some Unlocked \<Rightarrow> Panics | Some Locked \<Rightarrow> Returns (Some Unlocked))"

subsection \<open>Private methods\<close>

definition Capabilities_getProc :: "Capabilities \<times> world \<Rightarrow> error option \<times> Capabilities \<times> world" where
  "Capabilities_getProc s =
     (case s of (c, w) \<Rightarrow>
        (case cap_GetPID w of
           (h, Some e, w1) \<Rightarrow> (Some (couldNotGetProc e), c\<lparr>have_set := h\<rparr>, w1)
         | (h, None, w1) \<Rightarrow> (None, c\<lparr>have_set := h\<rparr>, w1)))"

definition Capabilities_setProc :: "Capabilities \<times> world \<Rightarrow> error option \<times> Capabilities \<times> world" where
  "Capabilities_setProc s =
     (case s of (c, w) \<Rightarrow>
        (case cap_SetProc (have_set c) w of
           (Some e, w1) \<Rightarrow> (Some (couldNotSetProc e), c, w1)
         | (None, w1) \<Rightarrow> (None, c, w1)))"

text \<open>
  \<open>set\<close> and \<open>unset\<close>: the assignment \<open>c.all[v][t] = b\<close> writes into the inner map of
  \<open>v\<close>; for a \<open>v\<close> that is no key of \<open>c.all\<close> that inner map is nil and the write
  panics.
\<close>

fun Capabilities_set :: "ringType \<Rightarrow> cap_Value list \<Rightarrow> Capabilities \<Rightarrow> (error option \<times> Capabilities) outcome" where
  "Capabilities_set t [] c = Returns (None, c)"
| "Capabilities_set t (v # values) c =
     (case map_of (all c) v of
        None \<Rightarrow> Panics
      | Some m \<Rightarrow> Capabilities_set t values (c\<lparr>all := AList.update v (m(t \<mapsto> True)) (all c)\<rparr>))"

fun Capabilities_unset :: "ringType \<Rightarrow> cap_Value list \<Rightarrow> Capabilities \<Rightarrow> (error option \<times> Capabilities) outcome" where
  "Capabilities_unset t [] c = Returns (None, c)"
| "Capabilities_unset t (v # values) c =
     (case map_of (all c) v of
        None \<Rightarrow> Panics
      | Some m \<Rightarrow> Capabilities_unset t values (c\<lparr>all := AList.update v (m(t \<mapsto> False)) (all c)\<rparr>))"

text \<open>
  The loop of \<open>apply\<close> over the entries of \<open>c.all\<close>: each entry sets one Effective
  flag of the snapshot, and the first \<open>SetFlag\<close> that fails ends the loop.
\<close>

fun apply_loop ::
  "ringType \<Rightarrow> (cap_Value \<times> (ringType \<rightharpoonup> bool)) list \<Rightarrow> cap_Set option \<times> world \<Rightarrow>
     lib_error option \<times> cap_Set option \<times> world" where
  "apply_loop t [] (h, w) = (None, h, w)"
| "apply_loop t ((k, v) # kvs) (h, w) =
     (case cap_SetFlag h Effective (ring_flag v t) k w of
        (Some e, h1, w1) \<Rightarrow> (Some e, h1, w1)
      | (None, h1, w1) \<Rightarrow> apply_loop t kvs (h1, w1))"

definition Capabilities_apply :: "ringType \<Rightarrow> Capabilities \<times> world \<Rightarrow> error option \<times> Capabilities \<times> world" where
  "Capabilities_apply t s =
     (case Capabilities_getProc s of
        (Some e, c1, w1) \<Rightarrow> (Some e, c1, w1)
      | (None, c1, w1) \<Rightarrow>
          (case apply_loop t (all c1) (have_set c1, w1) of
             (Some e, h2, w2) \<Rightarrow> (Some (LibError e), c1\<lparr>have_set := h2\<rparr>, w2)
           | (None, h2, w2) \<Rightarrow> Capabilities_setProc (c1\<lparr>have_set := h2\<rparr>, w2)))"

subsection \<open>Sequencing\<close>

text \<open>Running the rest of a method after a step that may panic or block.\<close>

definition and_then :: "'a outcome \<Rightarrow> ('a \<Rightarrow> 'b outcome) \<Rightarrow> 'b outcome" where
  "and_then m f = (case m of Returns x \<Rightarrow> f x | Panics \<Rightarrow> Panics | Blocks \<Rightarrow> Blocks)"

text \<open>
  \<open>defer c.lock.Unlock()\<close>: whatever a method returns, the mutex is released on the
  way out.
\<close>

definition deferred_Unlock ::
  "error option \<times> Capabilities \<times> world \<Rightarrow> (error option \<times> Capabilities \<times> world) outcome" where
  "deferred_Unlock r =
     (case r of (err, c, w) \<Rightarrow>
        and_then (Mutex_Unlock (lock c)) (\<lambda>l. Returns (err, c\<lparr>lock := l\<rparr>, w)))"

subsection \<open>Setters\<close>

definition Capabilities_Require :: "cap_Value list \<Rightarrow> Capabilities \<Rightarrow> (error option \<times> Capabilities) outcome" where
  "Capabilities_Require values c =
     (if bypass c then Returns (None, c)
      else
        and_then (Mutex_Lock (lock c)) (\<lambda>l.
        and_then (Capabilities_set Required values (c\<lparr>lock := l\<rparr>)) (\<lambda>(err, c1).
        and_then (Mutex_Unlock (lock c1)) (\<lambda>l1.
        Returns (err, c1\<lparr>lock := l1\<rparr>)))))"

definition Capabilities_Unrequire :: "cap_Value list \<Rightarrow> Capabilities \<Rightarrow> (error option \<times> Capabilities) outcome" where
  "Capabilities_Unrequire values c =
     (if bypass c then Returns (None, c)
      else
        and_then (Mutex_Lock (lock c)) (\<lambda>l.
        and_then (Capabilities_unset Required values (c\<lparr>lock := l\<rparr>)) (\<lambda>(err, c1).
        and_then (Mutex_Unlock (lock c1)) (\<lambda>l1.
        Returns (err, c1\<lparr>lock := l1\<rparr>)))))"

subsection \<open>The protection rings\<close>

text \<open>
  A callback is any Go function \<open>func() error\<close>: it may do to the world what it
  likes, return an error or none, panic, or never return. It holds no handle on the
  manager's private fields, and the mutex is held while it runs.
\<close>

type_synonym callback = "world \<Rightarrow> (error option \<times> world) outcome"

text \<open>
  In each of the three methods \<open>c.bypass\<close> is read before and after the callback;
  the callback leaves it alone, so the two tests are one branch here.
\<close>

definition Capabilities_Privileged ::
  "callback \<Rightarrow> Capabilities \<times> world \<Rightarrow> (error option \<times> Capabilities \<times> world) outcome" where
  "Capabilities_Privileged cb s =
     (case s of (c, w) \<Rightarrow>
        if \<not> bypass c then
          and_then (Mutex_Lock (lock c)) (\<lambda>l.
          (case Capabilities_apply Privileged (c\<lparr>lock := l\<rparr>, w) of
             (Some e, c1, w1) \<Rightarrow> deferred_Unlock (Some e, c1, w1)
           | (None, c1, w1) \<Rightarrow>
               (case cb w1 of
                  Panics \<Rightarrow> Panics
                | Blocks \<Rightarrow> Blocks
                | Returns (errCb, w2) \<Rightarrow>
                    (case Capabilities_apply Unprivileged (c1, w2) of
                       (Some e, c3, w3) \<Rightarrow> deferred_Unlock (Some e, c3, w3)
                     | (None, c3, w3) \<Rightarrow> deferred_Unlock (errCb, c3, w3)))))
        else and_then (cb w) (\<lambda>(errCb, w2). Returns (errCb, c, w2)))"

definition Capabilities_Required ::
  "callback \<Rightarrow> Capabilities \<times> world \<Rightarrow> (error option \<times> Capabilities \<times> world) outcome" where
  "Capabilities_Required cb s =
     (case s of (c, w) \<Rightarrow>
        if \<not> bypass c then
          and_then (Mutex_Lock (lock c)) (\<lambda>l.
          (case Capabilities_apply Required (c\<lparr>lock := l\<rparr>, w) of
             (Some e, c1, w1) \<Rightarrow> deferred_Unlock (Some e, c1, w1)
           | (None, c1, w1) \<Rightarrow>
               (case cb w1 of
                  Panics \<Rightarrow> Panics
                | Blocks \<Rightarrow> Blocks
                | Returns (errCb, w2) \<Rightarrow>
                    (case Capabilities_apply Unprivileged (c1, w2) of
                       (Some e, c3, w3) \<Rightarrow> deferred_Unlock (Some e, c3, w3)
                     | (None, c3, w3) \<Rightarrow> deferred_Unlock (errCb, c3, w3)))))
        else and_then (cb w) (\<lambda>(errCb, w2). Returns (errCb, c, w2)))"

definition Capabilities_Requested ::
  "callback \<Rightarrow> cap_Value list \<Rightarrow> Capabilities \<times> world \<Rightarrow> (error option \<times> Capabilities \<times> world) outcome" where
  "Capabilities_Requested cb values s =
     (case s of (c, w) \<Rightarrow>
        if \<not> bypass c then
          and_then (Mutex_Lock (lock c)) (\<lambda>l.
          and_then (Capabilities_set Requested values (c\<lparr>lock := l\<rparr>)) (\<lambda>(err0, c0).
          (case err0 of
             Some e \<Rightarrow> deferred_Unlock (Some e, c0, w)
           | None \<Rightarrow>
               (case Capabilities_apply Requested (c0, w) of
                  (Some e, c1, w1) \<Rightarrow> deferred_Unlock (Some e, c1, w1)
                | (None, c1, w1) \<Rightarrow>
                    and_then (Capabilities_unset Requested values c1) (\<lambda>(err2, c2).
                    (case err2 of
                       Some e \<Rightarrow> deferred_Unlock (Some e, c2, w1)
                     | None \<Rightarrow>
                         (case cb w1 of
                            Panics \<Rightarrow> Panics
                          | Blocks \<Rightarrow> Blocks
                          | Returns (errCb, w2) \<Rightarrow>
                              (case Capabilities_apply Unprivileged (c2, w2) of
                                 (Some e, c3, w3) \<Rightarrow> deferred_Unlock (Some e, c3, w3)
                               | (None, c3, w3) \<Rightarrow> deferred_Unlock (errCb, c3, w3)))))))))
        else and_then (cb w) (\<lambda>(errCb, w2). Returns (errCb, c, w2)))"

subsection \<open>Standalone functions\<close>

text \<open>\<open>strings.TrimSuffix\<close>.\<close>

definition TrimSuffix :: "string \<Rightarrow> string \<Rightarrow> string" where
  "TrimSuffix s suf = (if suffix suf s then take (length s - length suf) s else s)"

text \<open>
  \<open>getKernelPerfEventParanoidValue\<close> returns a value together with an error; the
  value is \<open>MaxParanoiaLevel = 4\<close> whenever there is an error.
\<close>

definition getKernelPerfEventParanoidValue :: "platform \<Rightarrow> world \<Rightarrow> int \<times> error option" where
  "getKernelPerfEventParanoidValue pf w =
     (case perf_event_paranoid w of
        None \<Rightarrow> (4, Some couldNotReadPerfEventParanoid)
      | Some content \<Rightarrow>
          (case ParseInt pf (TrimSuffix content [CHR 0x0A]) of
             None \<Rightarrow> (4, Some couldNotReadPerfEventParanoid)
           | Some intVal \<Rightarrow> (intVal, None)))"

text \<open>
  \<open>ReqByString\<close>: for each given name the inner loop appends every value below
  \<open>MaxBits\<close> whose name it is; a name with no such value ends the function with an
  error and no list. The Go pair \<open>(nil, err)\<close> is \<open>Inl err\<close>.
\<close>

fun ReqByString_loop :: "platform \<Rightarrow> string list \<Rightarrow> cap_Value list \<Rightarrow> error + cap_Value list" where
  "ReqByString_loop pf [] capsToActOn = Inr capsToActOn"
| "ReqByString_loop pf (given # rest) capsToActOn =
     (let hits = filter (\<lambda>v. cap_String pf v = given) [0..<MaxBits pf]
      in if hits = [] then Inl (couldNotFindCapability given)
         else ReqByString_loop pf rest (capsToActOn @ hits))"

definition ReqByString :: "platform \<Rightarrow> string list \<Rightarrow> error + cap_Value list" where
  "ReqByString pf values = ReqByString_loop pf values []"

definition ListAvailCaps :: "platform \<Rightarrow> string list" where
  "ListAvailCaps pf = map (cap_String pf) [0..<MaxBits pf]"

subsection \<open>Initialization\<close>

text \<open>
  The first loop of \<open>initialize\<close>: a fresh inner map with \<open>Privileged\<close> raised for
  every value below \<open>MaxBits\<close>.
\<close>

definition seed_all :: "cap_Value \<Rightarrow> (cap_Value \<times> (ringType \<rightharpoonup> bool)) list" where
  "seed_all n = fold (\<lambda>v tab. AList.update v (Map.empty(Privileged \<mapsto> True)) tab) [0..<n] []"

text \<open>The second loop: every key of the table is dropped from the bounding set, the result of each call ignored.\<close>

definition drop_all_bound :: "(cap_Value \<times> (ringType \<rightharpoonup> bool)) list \<Rightarrow> world \<Rightarrow> world" where
  "drop_all_bound tab w = fold (\<lambda>k w1. snd (cap_DropBound k w1)) (map fst tab) w"

definition Capabilities_initialize ::
  "platform \<Rightarrow> bool \<Rightarrow> Capabilities \<times> world \<Rightarrow> (error option \<times> Capabilities \<times> world) outcome" where
  "Capabilities_initialize pf byp s =
     (case s of (c, w) \<Rightarrow>
        if byp then Returns (None, c\<lparr>bypass := True\<rparr>, w)
        else if initialized c then Returns (Some alreadyInitialized, c, w)
        else
          (case Capabilities_getProc (c\<lparr>lock := Some Unlocked, all := seed_all (MaxBits pf)\<rparr>, w) of
             (Some e, c1, w1) \<Rightarrow> Returns (Some e, c1, w1)
           | (None, c1, w1) \<Rightarrow>
               (case Capabilities_setProc (c1, drop_all_bound (all c1) w1) of
                  (Some e, c2, w2) \<Rightarrow> Returns (Some e, c2, w2)
                | (None, c2, w2) \<Rightarrow>
                    and_then (Capabilities_Require [cap_IPC_LOCK, cap_SYS_RESOURCE] c2) (\<lambda>(_, c3).
                    (case getKernelPerfEventParanoidValue pf w2 of (paranoid, err) \<Rightarrow>
                       and_then
                         (if paranoid > 2 then Capabilities_Require [cap_SYS_ADMIN] c3
                          else Returns (None, c3)) (\<lambda>(_, c4).
                       (case cap_GetFlag (have_set c4) Permitted cap_BPF of (hasBPF, _) \<Rightarrow>
                          and_then
                            (if hasBPF then Capabilities_Require [cap_BPF, cap_PERFMON] c4
                             else Capabilities_Require [cap_SYS_ADMIN] c4) (\<lambda>(_, c5).
                          Returns (Capabilities_apply Unprivileged (c5, w2))))))))))"

text \<open>\<open>NewCapabilities\<close> overwrites the singleton with the zero value and initializes it.\<close>

definition NewCapabilities ::
  "platform \<Rightarrow> bool \<Rightarrow> Capabilities \<times> world \<Rightarrow> (error option \<times> Capabilities \<times> world) outcome" where
  "NewCapabilities pf byp s = (case s of (Caps, w) \<Rightarrow> Capabilities_initialize pf byp (Capabilities_zero, w))"

section \<open>Notions of the specification\<close>

text \<open>The value a call returned, if it returned.\<close>

definition returned :: "'a outcome \<Rightarrow> 'a option" where
  "returned m = (case m of Returns x \<Rightarrow> Some x | Panics \<Rightarrow> None | Blocks \<Rightarrow> None)"

text \<open>
  The active ring is not stored anywhere: ring \<open>t\<close> is active when the Effective flag
  of the process agrees, for every capability of the table, with column \<open>t\<close>.
\<close>

definition active_ring_is :: "ringType \<Rightarrow> Capabilities \<Rightarrow> world \<Rightarrow> bool" where
  "active_ring_is t c w = list_all (\<lambda>(k, v). (k \<in> proc_caps w Effective) = ring_flag v t) (all c)"

text \<open>The errors that come from a capability query or commit (\<open>getProc\<close>, \<open>SetFlag\<close>, \<open>setProc\<close>).\<close>

fun adapter_error :: "error option \<Rightarrow> bool" where
  "adapter_error (Some (couldNotGetProc e)) = True"
| "adapter_error (Some (couldNotSetProc e)) = True"
| "adapter_error (Some (LibError e)) = True"
| "adapter_error _ = False"

text \<open>
  What a ring method owes its caller once the callback has returned \<open>errCb\<close> in world
  \<open>w2\<close>, the manager being \<open>c1\<close> (the mutex held): it applies \<open>Unprivileged\<close> from
  there, so the next capability call in the log is the query of that apply; it returns
  the error of that apply if there is one and \<open>errCb\<close> otherwise, with the mutex
  released.
\<close>

definition restores_then_returns ::
  "(error option \<times> Capabilities \<times> world) outcome \<Rightarrow> error option \<Rightarrow> Capabilities \<Rightarrow> world \<Rightarrow> bool" where
  "restores_then_returns result errCb c1 w2 =
     (case Capabilities_apply Unprivileged (c1, w2) of (err, c3, w3) \<Rightarrow>
        result = Returns (case err of Some e \<Rightarrow> Some e | None \<Rightarrow> errCb, c3\<lparr>lock := Some Unlocked\<rparr>, w3) \<and>
        take (Suc (length (oslog w2))) (oslog w3) = oslog w2 @ [OsGetPID])"

text \<open>The calls a client can make on the manager once it is initialized, and a run of them.\<close>

datatype api_call =
    Require "cap_Value list"
  | Unrequire "cap_Value list"
  | RunPrivileged callback
  | RunRequired callback
  | RunRequested callback "cap_Value list"

fun api_step :: "api_call \<Rightarrow> Capabilities \<times> world \<Rightarrow> (error option \<times> Capabilities \<times> world) outcome" where
  "api_step (Require values) (c, w) = and_then (Capabilities_Require values c) (\<lambda>(e, c1). Returns (e, c1, w))"
| "api_step (Unrequire values) (c, w) = and_then (Capabilities_Unrequire values c) (\<lambda>(e, c1). Returns (e, c1, w))"
| "api_step (RunPrivileged cb) (c, w) = Capabilities_Privileged cb (c, w)"
| "api_step (RunRequired cb) (c, w) = Capabilities_Required cb (c, w)"
| "api_step (RunRequested cb values) (c, w) = Capabilities_Requested cb values (c, w)"

fun api_run :: "api_call list \<Rightarrow> Capabilities \<times> world \<Rightarrow> (Capabilities \<times> world) outcome" where
  "api_run [] s = Returns s"
| "api_run (a # rest) s = and_then (api_step a s) (\<lambda>(e, s1). api_run rest s1)"

section \<open>A concrete platform for the examples\<close>

text \<open>
  A Linux 5.9 kernel: 41 capability values with the names libcap gives them. The
  \<open>ParseInt\<close> of this platform is not all of Go's: it reads a decimal literal with an
  optional sign, within 16 bits, and refuses every other string, among them the
  prefixed literals (\<open>0x10\<close>, \<open>0o7\<close>, \<open>0b11\<close>, \<open>010\<close>) and the underscores that
  \<open>strconv.ParseInt(s, 0, 16)\<close> accepts. The examples read the strings \<open>3\<close> and
  \<open>not a number\<close> only, on which the two agree.
\<close>

definition example_names :: "string list" where
  "example_names =
     [''cap_chown'', ''cap_dac_override'', ''cap_dac_read_search'', ''cap_fowner'', ''cap_fsetid'',
      ''cap_kill'', ''cap_setgid'', ''cap_setuid'', ''cap_setpcap'', ''cap_linux_immutable'',
      ''cap_net_bind_service'', ''cap_net_broadcast'', ''cap_net_admin'', ''cap_net_raw'',
      ''cap_ipc_lock'', ''cap_ipc_owner'', ''cap_sys_module'', ''cap_sys_rawio'', ''cap_sys_chroot'',
      ''cap_sys_ptrace'', ''cap_sys_pacct'', ''cap_sys_admin'', ''cap_sys_boot'', ''cap_sys_nice'',
      ''cap_sys_resource'', ''cap_sys_time'', ''cap_sys_tty_config'', ''cap_mknod'', ''cap_lease'',
      ''cap_audit_write'', ''cap_audit_control'', ''cap_setfcap'', ''cap_mac_override'',
      ''cap_mac_admin'', ''cap_syslog'', ''cap_wake_alarm'', ''cap_block_suspend'',
      ''cap_audit_read'', ''cap_perfmon'', ''cap_bpf'', ''cap_checkpoint_restore'']"

definition digit_value :: "char \<Rightarrow> nat option" where
  "digit_value ch =
     (let n = (of_char ch :: nat) in if 48 \<le> n \<and> n \<le> 57 then Some (n - 48) else None)"

fun decimal_digits :: "string \<Rightarrow> nat \<Rightarrow> nat option" where
  "decimal_digits [] acc = Some acc"
| "decimal_digits (ch # cs) acc =
     (case digit_value ch of None \<Rightarrow> None | Some d \<Rightarrow> decimal_digits cs (10 * acc + d))"

definition example_ParseInt :: "string \<Rightarrow> int option" where
  "example_ParseInt s =
     (case s of
        [] \<Rightarrow> None
      | ch # cs \<Rightarrow>
          (let neg = (ch = CHR ''-'');
               ds = (if ch = CHR ''-'' \<or> ch = CHR ''+'' then cs else s)
           in if ds = [] \<or> (hd ds = CHR ''0'' \<and> tl ds \<noteq> []) then None
              else (case decimal_digits ds 0 of
                      None \<Rightarrow> None
                    | Some n \<Rightarrow>
                        (let i = (if neg then - int n else int n)
                         in if - 32768 \<le> i \<and> i \<le> 32767 then Some i else None))))"

definition example_platform :: platform where
  "example_platform =
     \<lparr>MaxBits = 41,
      cap_String = (\<lambda>v. if v < length example_names then example_names ! v else ''unnamed''),
      ParseInt = example_ParseInt\<rparr>"

text \<open>
  A process that starts with every capability permitted, effective and in its bounding
  set; the content of the tunable file and the schedule of failing library calls are
  left open.
\<close>

definition example_world :: "string option \<Rightarrow> lib_error option list \<Rightarrow> world" where
  "example_world tunable schedule =
     \<lparr>proc_caps = (\<lambda>f. case f of Effective \<Rightarrow> {0..<41} | Permitted \<Rightarrow> {0..<41} | Inheritable \<Rightarrow> {}),
      proc_bound = {0..<41},
      perf_event_paranoid = tunable,
      faults = schedule,
      oslog = []\<rparr>"

text \<open>Two callbacks: one that succeeds and one that fails, neither touching the world.\<close>

definition cb_ok :: callback where
  "cb_ok w = Returns (None, w)"

definition cb_fails :: callback where
  "cb_fails w = Returns (Some (OtherError ''callback failed''), w)"

section \<open>Auxiliary facts\<close>

subsection \<open>The table: seeding, \<open>set\<close> and \<open>unset\<close>\<close>

lemma update_absent: "k \<notin> fst ` set al \<Longrightarrow> AList.update k v al = al @ [(k, v)]"
  by (induction al) auto

lemma seed_all_eq: "seed_all n = map (\<lambda>v. (v, Map.empty(Privileged \<mapsto> True))) [0..<n]"
proof -
  define m0 :: "ringType \<rightharpoonup> bool" where "m0 = Map.empty(Privileged \<mapsto> True)"
  have "fold (\<lambda>v tab. AList.update v m0 tab) [0..<n] [] = map (\<lambda>v. (v, m0)) [0..<n]"
  proof (induction n)
    case 0
    show ?case by simp
  next
    case (Suc n)
    have "n \<notin> fst ` set (map (\<lambda>v. (v, m0)) [0..<n])"
      by auto
    then have "AList.update n m0 (map (\<lambda>v. (v, m0)) [0..<n]) = map (\<lambda>v. (v, m0)) [0..<n] @ [(n, m0)]"
      by (rule update_absent)
    with Suc show ?case by simp
  qed
  then show ?thesis unfolding seed_all_def m0_def .
qed

lemma keys_seed_all: "map fst (seed_all n) = [0..<n]"
  by (simp add: seed_all_eq comp_def)

lemma map_of_seed_all:
  "map_of (seed_all n) k = (if k < n then Some (Map.empty(Privileged \<mapsto> True)) else None)"
proof -
  define m0 :: "ringType \<rightharpoonup> bool" where "m0 = Map.empty(Privileged \<mapsto> True)"
  have "map_of (map (\<lambda>v. (v, m0)) [0..<n]) k = (if k < n then Some m0 else None)"
    by (simp add: map_of_map_restrict restrict_map_def)
  then show ?thesis unfolding seed_all_eq m0_def .
qed

lemma Membership_update:
  "map_of (all c) v = Some m \<Longrightarrow>
     Membership (c\<lparr>all := AList.update v (m(t \<mapsto> b)) (all c)\<rparr>) k r =
       (if k = v \<and> r = t then b else Membership c k r)"
  by (simp add: Membership_def AList.update_conv' ring_flag_def)

lemma key_of_map_of: "map_of al v = Some m \<Longrightarrow> v \<in> fst ` set al"
  by (metis domI dom_map_of_conv_image_fst)

lemma keys_update_present:
  "map_of al v = Some m \<Longrightarrow> map fst (AList.update v m' al) = map fst al"
  using key_of_map_of[of al v m] by (simp add: AList.update_keys)

lemma set_frame:
  "Capabilities_set t vs c = Returns (e, c') \<Longrightarrow>
     e = None \<and> have_set c' = have_set c \<and> bypass c' = bypass c \<and>
     initialized c' = initialized c \<and> lock c' = lock c \<and> map fst (all c') = map fst (all c)"
proof (induction vs arbitrary: c)
  case Nil
  then show ?case by simp
next
  case (Cons v vs)
  from Cons.prems obtain m where m: "map_of (all c) v = Some m"
    and rest: "Capabilities_set t vs (c\<lparr>all := AList.update v (m(t \<mapsto> True)) (all c)\<rparr>) = Returns (e, c')"
    by (auto split: option.splits)
  from Cons.IH[OF rest] keys_update_present[OF m] show ?case by simp
qed

lemma unset_frame:
  "Capabilities_unset t vs c = Returns (e, c') \<Longrightarrow>
     e = None \<and> have_set c' = have_set c \<and> bypass c' = bypass c \<and>
     initialized c' = initialized c \<and> lock c' = lock c \<and> map fst (all c') = map fst (all c)"
proof (induction vs arbitrary: c)
  case Nil
  then show ?case by simp
next
  case (Cons v vs)
  from Cons.prems obtain m where m: "map_of (all c) v = Some m"
    and rest: "Capabilities_unset t vs (c\<lparr>all := AList.update v (m(t \<mapsto> False)) (all c)\<rparr>) = Returns (e, c')"
    by (auto split: option.splits)
  from Cons.IH[OF rest] keys_update_present[OF m] show ?case by simp
qed

lemma set_Membership:
  "Capabilities_set t vs c = Returns (e, c') \<Longrightarrow>
     Membership c' k r = (if r = t \<and> k \<in> set vs then True else Membership c k r)"
proof (induction vs arbitrary: c)
  case Nil
  then show ?case by simp
next
  case (Cons v vs)
  from Cons.prems obtain m where m: "map_of (all c) v = Some m"
    and rest: "Capabilities_set t vs (c\<lparr>all := AList.update v (m(t \<mapsto> True)) (all c)\<rparr>) = Returns (e, c')"
    by (auto split: option.splits)
  from Cons.IH[OF rest] Membership_update[OF m, of t True k r] show ?case by auto
qed

lemma unset_Membership:
  "Capabilities_unset t vs c = Returns (e, c') \<Longrightarrow>
     Membership c' k r = (if r = t \<and> k \<in> set vs then False else Membership c k r)"
proof (induction vs arbitrary: c)
  case Nil
  then show ?case by simp
next
  case (Cons v vs)
  from Cons.prems obtain m where m: "map_of (all c) v = Some m"
    and rest: "Capabilities_unset t vs (c\<lparr>all := AList.update v (m(t \<mapsto> False)) (all c)\<rparr>) = Returns (e, c')"
    by (auto split: option.splits)
  from Cons.IH[OF rest] Membership_update[OF m, of t False k r] show ?case by auto
qed

lemma set_Panics:
  "\<not> set vs \<subseteq> fst ` set (all c) \<Longrightarrow> Capabilities_set t vs c = Panics"
proof (induction vs arbitrary: c)
  case Nil
  then show ?case by simp
next
  case (Cons v vs)
  show ?case
  proof (cases "map_of (all c) v")
    case None
    then show ?thesis by simp
  next
    case (Some m)
    have "fst ` set (AList.update v (m(t \<mapsto> True)) (all c)) = fst ` set (all c)"
      using key_of_map_of[OF Some] by (auto simp: AList.dom_update)
    moreover have "\<not> set vs \<subseteq> fst ` set (all c)"
      using Cons.prems key_of_map_of[OF Some] by auto
    ultimately show ?thesis using Some Cons.IH[of "c\<lparr>all := AList.update v (m(t \<mapsto> True)) (all c)\<rparr>"]
      by simp
  qed
qed

lemma unset_Panics:
  "\<not> set vs \<subseteq> fst ` set (all c) \<Longrightarrow> Capabilities_unset t vs c = Panics"
proof (induction vs arbitrary: c)
  case Nil
  then show ?case by simp
next
  case (Cons v vs)
  show ?case
  proof (cases "map_of (all c) v")
    case None
    then show ?thesis by simp
  next
    case (Some m)
    have "fst ` set (AList.update v (m(t \<mapsto> False)) (all c)) = fst ` set (all c)"
      using key_of_map_of[OF Some] by (auto simp: AList.dom_update)
    moreover have "\<not> set vs \<subseteq> fst ` set (all c)"
      using Cons.prems key_of_map_of[OF Some] by auto
    ultimately show ?thesis using Some Cons.IH[of "c\<lparr>all := AList.update v (m(t \<mapsto> False)) (all c)\<rparr>"]
      by simp
  qed
qed

lemma set_Returns:
  "set vs \<subseteq> fst ` set (all c) \<Longrightarrow> \<exists>c'. Capabilities_set t vs c = Returns (None, c')"
proof (induction vs arbitrary: c)
  case Nil
  then show ?case by simp
next
  case (Cons v vs)
  from Cons.prems have "v \<in> fst ` set (all c)" by simp
  then obtain m where m: "map_of (all c) v = Some m"
    by (metis domD dom_map_of_conv_image_fst)
  have "fst ` set (AList.update v (m(t \<mapsto> True)) (all c)) = fst ` set (all c)"
    using key_of_map_of[OF m] by (auto simp: AList.dom_update)
  with Cons.prems Cons.IH[of "c\<lparr>all := AList.update v (m(t \<mapsto> True)) (all c)\<rparr>"] m
  show ?case by simp
qed

lemma unset_Returns:
  "set vs \<subseteq> fst ` set (all c) \<Longrightarrow> \<exists>c'. Capabilities_unset t vs c = Returns (None, c')"
proof (induction vs arbitrary: c)
  case Nil
  then show ?case by simp
next
  case (Cons v vs)
  from Cons.prems have "v \<in> fst ` set (all c)" by simp
  then obtain m where m: "map_of (all c) v = Some m"
    by (metis domD dom_map_of_conv_image_fst)
  have "fst ` set (AList.update v (m(t \<mapsto> False)) (all c)) = fst ` set (all c)"
    using key_of_map_of[OF m] by (auto simp: AList.dom_update)
  with Cons.prems Cons.IH[of "c\<lparr>all := AList.update v (m(t \<mapsto> False)) (all c)\<rparr>"] m
  show ?case by simp
qed

subsection \<open>The library calls and \<open>apply\<close>\<close>

lemma next_fault_frame:
  "next_fault w = (f, w1) \<Longrightarrow>
     proc_caps w1 = proc_caps w \<and> proc_bound w1 = proc_bound w \<and>
     perf_event_paranoid w1 = perf_event_paranoid w \<and> oslog w1 = oslog w"
  by (auto simp: next_fault_def split: list.splits)

lemma SetFlag_frame:
  "cap_SetFlag h vec b k w = (e, h1, w1) \<Longrightarrow>
     proc_caps w1 = proc_caps w \<and> proc_bound w1 = proc_bound w \<and>
     perf_event_paranoid w1 = perf_event_paranoid w \<and> oslog w1 = oslog w"
  by (auto simp: cap_SetFlag_def split: option.splits prod.splits dest: next_fault_frame)

lemma apply_loop_frame:
  "apply_loop t kvs (h, w) = (e, h1, w1) \<Longrightarrow>
     proc_caps w1 = proc_caps w \<and> proc_bound w1 = proc_bound w \<and>
     perf_event_paranoid w1 = perf_event_paranoid w \<and> oslog w1 = oslog w"
proof (induction kvs arbitrary: h w)
  case Nil
  then show ?case by simp
next
  case (Cons kv kvs)
  obtain k v where kv: "kv = (k, v)" by (cases kv)
  obtain e0 h0 w0 where sf: "cap_SetFlag h Effective (ring_flag v t) k w = (e0, h0, w0)"
    by (cases "cap_SetFlag h Effective (ring_flag v t) k w")
  show ?case
  proof (cases e0)
    case None
    with Cons.prems kv sf have "apply_loop t kvs (h0, w0) = (e, h1, w1)" by simp
    from Cons.IH[OF this] SetFlag_frame[OF sf] show ?thesis by simp
  next
    case (Some a)
    with Cons.prems kv sf have "w1 = w0" by simp
    with SetFlag_frame[OF sf] show ?thesis by simp
  qed
qed

lemma apply_loop_effect:
  "apply_loop t kvs (Some flags, w) = (None, h1, w1) \<Longrightarrow> distinct (map fst kvs) \<Longrightarrow>
     \<exists>flags1. h1 = Some flags1 \<and>
       (\<forall>f. f \<noteq> Effective \<longrightarrow> flags1 f = flags f) \<and>
       (\<forall>k. k \<notin> fst ` set kvs \<longrightarrow> (k \<in> flags1 Effective) = (k \<in> flags Effective)) \<and>
       (\<forall>(k, v) \<in> set kvs. (k \<in> flags1 Effective) = ring_flag v t)"
proof (induction kvs arbitrary: flags w)
  case Nil
  then show ?case by auto
next
  case (Cons kv kvs)
  obtain k v where kv: "kv = (k, v)" by (cases kv)
  obtain e0 h0 w0 where sf: "cap_SetFlag (Some flags) Effective (ring_flag v t) k w = (e0, h0, w0)"
    by (cases "cap_SetFlag (Some flags) Effective (ring_flag v t) k w")
  from Cons.prems(1) kv sf have e0: "e0 = None" by (cases e0) auto
  with Cons.prems(1) kv sf have rest: "apply_loop t kvs (h0, w0) = (None, h1, w1)" by simp
  define flags0 where
    "flags0 = flags(Effective := (if ring_flag v t then insert k (flags Effective) else flags Effective - {k}))"
  from sf e0 have h0: "h0 = Some flags0"
    by (auto simp: cap_SetFlag_def flags0_def split: prod.splits option.splits)
  from Cons.prems(2) kv have dk: "distinct (map fst kvs)" and knot: "k \<notin> fst ` set kvs" by auto
  from Cons.IH[OF rest[unfolded h0] dk] obtain flags1 where
    f1: "h1 = Some flags1"
    and oth: "\<forall>f. f \<noteq> Effective \<longrightarrow> flags1 f = flags0 f"
    and out: "\<forall>k'. k' \<notin> fst ` set kvs \<longrightarrow> (k' \<in> flags1 Effective) = (k' \<in> flags0 Effective)"
    and inn: "\<forall>(k', v') \<in> set kvs. (k' \<in> flags1 Effective) = ring_flag v' t"
    by blast
  have a: "\<forall>f. f \<noteq> Effective \<longrightarrow> flags1 f = flags f"
    using oth by (simp add: flags0_def)
  have b: "\<forall>k'. k' \<notin> fst ` set (kv # kvs) \<longrightarrow> (k' \<in> flags1 Effective) = (k' \<in> flags Effective)"
    using out kv by (auto simp: flags0_def)
  have "(k \<in> flags1 Effective) = ring_flag v t"
    using out knot by (simp add: flags0_def)
  with inn kv have c: "\<forall>(k', v') \<in> set (kv # kvs). (k' \<in> flags1 Effective) = ring_flag v' t"
    by auto
  from f1 a b c show ?case by blast
qed

lemma getProc_cases:
  "Capabilities_getProc (c, w) = (e, c1, w1) \<Longrightarrow>
     all c1 = all c \<and> bypass c1 = bypass c \<and> initialized c1 = initialized c \<and> lock c1 = lock c \<and>
     oslog w1 = oslog w @ [OsGetPID] \<and> proc_caps w1 = proc_caps w \<and> proc_bound w1 = proc_bound w \<and>
     perf_event_paranoid w1 = perf_event_paranoid w \<and>
     (e = None \<longrightarrow> have_set c1 = Some (proc_caps w)) \<and> (e = None \<or> adapter_error e)"
  by (auto simp: Capabilities_getProc_def cap_GetPID_def split: prod.splits option.splits
           dest: next_fault_frame)

lemma setProc_cases:
  "Capabilities_setProc (c, w) = (e, c1, w1) \<Longrightarrow>
     c1 = c \<and> proc_bound w1 = proc_bound w \<and> perf_event_paranoid w1 = perf_event_paranoid w \<and>
     (e = None \<longrightarrow> have_set c = Some (proc_caps w1)) \<and>
     (e \<noteq> None \<longrightarrow> proc_caps w1 = proc_caps w) \<and>
     (have_set c \<noteq> None \<longrightarrow> oslog w1 = oslog w @ [OsSetProc]) \<and> (e = None \<or> adapter_error e)"
  by (auto simp: Capabilities_setProc_def cap_SetProc_def split: prod.splits option.splits
           dest: next_fault_frame)

lemma apply_frame:
  assumes "Capabilities_apply t (c, w) = (e, c1, w1)"
  shows "all c1 = all c \<and> bypass c1 = bypass c \<and> initialized c1 = initialized c \<and> lock c1 = lock c \<and>
         proc_bound w1 = proc_bound w \<and> perf_event_paranoid w1 = perf_event_paranoid w \<and>
         (e = None \<or> adapter_error e)"
proof -
  obtain e0 c0 w0 where gp: "Capabilities_getProc (c, w) = (e0, c0, w0)"
    by (cases "Capabilities_getProc (c, w)")
  note g = getProc_cases[OF gp]
  show ?thesis
  proof (cases e0)
    case (Some a)
    with assms gp have "c1 = c0" "w1 = w0" "e = e0" by (simp_all add: Capabilities_apply_def)
    with g show ?thesis by simp
  next
    case None
    obtain e2 h2 w2 where lp: "apply_loop t (all c0) (have_set c0, w0) = (e2, h2, w2)"
      by (cases "apply_loop t (all c0) (have_set c0, w0)")
    note l = apply_loop_frame[OF lp]
    show ?thesis
    proof (cases e2)
      case (Some a)
      with assms gp None lp have "c1 = c0\<lparr>have_set := h2\<rparr>" "w1 = w2" "e = Some (LibError a)"
        by (simp_all add: Capabilities_apply_def)
      with g l show ?thesis by simp
    next
      case n2: None
      with assms gp None lp have "Capabilities_setProc (c0\<lparr>have_set := h2\<rparr>, w2) = (e, c1, w1)"
        by (simp add: Capabilities_apply_def)
      from setProc_cases[OF this] g l show ?thesis by simp
    qed
  qed
qed

lemma apply_log:
  assumes "Capabilities_apply t (c, w) = (e, c1, w1)"
  shows "take (Suc (length (oslog w))) (oslog w1) = oslog w @ [OsGetPID]"
proof -
  obtain e0 c0 w0 where gp: "Capabilities_getProc (c, w) = (e0, c0, w0)"
    by (cases "Capabilities_getProc (c, w)")
  note g = getProc_cases[OF gp]
  show ?thesis
  proof (cases e0)
    case (Some a)
    with assms gp have "c1 = c0" "w1 = w0" by (simp_all add: Capabilities_apply_def)
    with g show ?thesis by simp
  next
    case None
    obtain e2 h2 w2 where lp: "apply_loop t (all c0) (have_set c0, w0) = (e2, h2, w2)"
      by (cases "apply_loop t (all c0) (have_set c0, w0)")
    note l = apply_loop_frame[OF lp]
    show ?thesis
    proof (cases e2)
      case (Some a)
      with assms gp None lp have "c1 = c0\<lparr>have_set := h2\<rparr>" "w1 = w2"
        by (simp_all add: Capabilities_apply_def)
      with g l show ?thesis by simp
    next
      case n2: None
      with assms gp None lp have sp: "Capabilities_setProc (c0\<lparr>have_set := h2\<rparr>, w2) = (e, c1, w1)"
        by (simp add: Capabilities_apply_def)
      have "oslog w1 = oslog w2 \<or> oslog w1 = oslog w2 @ [OsSetProc]"
        using sp by (auto simp: Capabilities_setProc_def cap_SetProc_def
            split: prod.splits option.splits dest: next_fault_frame)
      with g l show ?thesis by auto
    qed
  qed
qed

lemma apply_effect:
  assumes ap: "Capabilities_apply t (c, w) = (None, c1, w1)" and d: "distinct (map fst (all c))"
  shows "(\<forall>(k, v) \<in> set (all c). (k \<in> proc_caps w1 Effective) = ring_flag v t) \<and>
         (\<forall>k. k \<notin> fst ` set (all c) \<longrightarrow> (k \<in> proc_caps w1 Effective) = (k \<in> proc_caps w Effective)) \<and>
         (\<forall>f. f \<noteq> Effective \<longrightarrow> proc_caps w1 f = proc_caps w f)"
proof -
  obtain e0 c0 w0 where gp: "Capabilities_getProc (c, w) = (e0, c0, w0)"
    by (cases "Capabilities_getProc (c, w)")
  note g = getProc_cases[OF gp]
  from ap gp have e0: "e0 = None" by (cases e0) (auto simp: Capabilities_apply_def)
  with g have hv: "have_set c0 = Some (proc_caps w)" by simp
  obtain e2 h2 w2 where lp: "apply_loop t (all c0) (have_set c0, w0) = (e2, h2, w2)"
    by (cases "apply_loop t (all c0) (have_set c0, w0)")
  from ap gp e0 lp have e2: "e2 = None" by (cases e2) (auto simp: Capabilities_apply_def)
  with ap gp e0 lp have sp: "Capabilities_setProc (c0\<lparr>have_set := h2\<rparr>, w2) = (None, c1, w1)"
    by (simp add: Capabilities_apply_def)
  from g d have d0: "distinct (map fst (all c0))" by simp
  from apply_loop_effect[OF lp[unfolded hv e2] d0] obtain flags1 where
    f1: "h2 = Some flags1"
    and oth: "\<forall>f. f \<noteq> Effective \<longrightarrow> flags1 f = proc_caps w f"
    and out: "\<forall>k. k \<notin> fst ` set (all c0) \<longrightarrow> (k \<in> flags1 Effective) = (k \<in> proc_caps w Effective)"
    and inn: "\<forall>(k, v) \<in> set (all c0). (k \<in> flags1 Effective) = ring_flag v t"
    by blast
  from setProc_cases[OF sp] f1 have "proc_caps w1 = flags1" by simp
  with oth out inn g show ?thesis by simp
qed

subsection \<open>The mutex in a sequential run\<close>

lemma lock_all_commute:
  "(c\<lparr>lock := l\<rparr>)\<lparr>all := tab\<rparr> = (c\<lparr>all := tab\<rparr>)\<lparr>lock := l\<rparr>"
  by (cases c) simp

lemma set_lock:
  "Capabilities_set t vs (c\<lparr>lock := l\<rparr>) =
     (case Capabilities_set t vs c of Returns (e, c1) \<Rightarrow> Returns (e, c1\<lparr>lock := l\<rparr>)
      | Panics \<Rightarrow> Panics | Blocks \<Rightarrow> Blocks)"
proof (induction vs arbitrary: c)
  case Nil
  show ?case by simp
next
  case (Cons v vs)
  show ?case
  proof (cases "map_of (all c) v")
    case None
    then show ?thesis by simp
  next
    case (Some m)
    define c2 where "c2 = c\<lparr>all := AList.update v (m(t \<mapsto> True)) (all c)\<rparr>"
    have "Capabilities_set t (v # vs) (c\<lparr>lock := l\<rparr>) = Capabilities_set t vs (c2\<lparr>lock := l\<rparr>)"
      using Some by (simp add: c2_def lock_all_commute)
    also have "\<dots> = (case Capabilities_set t vs c2 of Returns (e, c1) \<Rightarrow> Returns (e, c1\<lparr>lock := l\<rparr>)
      | Panics \<Rightarrow> Panics | Blocks \<Rightarrow> Blocks)"
      by (rule Cons.IH)
    also have "Capabilities_set t vs c2 = Capabilities_set t (v # vs) c"
      using Some by (simp add: c2_def)
    finally show ?thesis .
  qed
qed

lemma unset_lock:
  "Capabilities_unset t vs (c\<lparr>lock := l\<rparr>) =
     (case Capabilities_unset t vs c of Returns (e, c1) \<Rightarrow> Returns (e, c1\<lparr>lock := l\<rparr>)
      | Panics \<Rightarrow> Panics | Blocks \<Rightarrow> Blocks)"
proof (induction vs arbitrary: c)
  case Nil
  show ?case by simp
next
  case (Cons v vs)
  show ?case
  proof (cases "map_of (all c) v")
    case None
    then show ?thesis by simp
  next
    case (Some m)
    define c2 where "c2 = c\<lparr>all := AList.update v (m(t \<mapsto> False)) (all c)\<rparr>"
    have "Capabilities_unset t (v # vs) (c\<lparr>lock := l\<rparr>) = Capabilities_unset t vs (c2\<lparr>lock := l\<rparr>)"
      using Some by (simp add: c2_def lock_all_commute)
    also have "\<dots> = (case Capabilities_unset t vs c2 of Returns (e, c1) \<Rightarrow> Returns (e, c1\<lparr>lock := l\<rparr>)
      | Panics \<Rightarrow> Panics | Blocks \<Rightarrow> Blocks)"
      by (rule Cons.IH)
    also have "Capabilities_unset t vs c2 = Capabilities_unset t (v # vs) c"
      using Some by (simp add: c2_def)
    finally show ?thesis .
  qed
qed

lemma apply_lock:
  "Capabilities_apply t (c\<lparr>lock := l\<rparr>, w) =
     (case Capabilities_apply t (c, w) of (e, c1, w1) \<Rightarrow> (e, c1\<lparr>lock := l\<rparr>, w1))"
  by (simp add: Capabilities_apply_def Capabilities_getProc_def Capabilities_setProc_def
           split: prod.splits option.splits)

lemma Require_eq:
  assumes "\<not> bypass c" "lock c = Some Unlocked"
  shows "Capabilities_Require vs c = Capabilities_set Required vs c"
proof (cases "Capabilities_set Required vs c")
  case (Returns r)
  obtain e c1 where r: "r = (e, c1)" by (cases r)
  from set_frame[OF Returns[unfolded r]] assms have "lock c1 = Some Unlocked" by simp
  then have "c1\<lparr>lock := Some Unlocked\<rparr> = c1" by (cases c1) simp
  with assms Returns r show ?thesis
    by (simp add: Capabilities_Require_def Mutex_Lock_def Mutex_Unlock_def and_then_def set_lock)
next
  case Panics
  with assms show ?thesis
    by (simp add: Capabilities_Require_def Mutex_Lock_def and_then_def set_lock)
next
  case Blocks
  with assms show ?thesis
    by (simp add: Capabilities_Require_def Mutex_Lock_def and_then_def set_lock)
qed

lemma Unrequire_eq:
  assumes "\<not> bypass c" "lock c = Some Unlocked"
  shows "Capabilities_Unrequire vs c = Capabilities_unset Required vs c"
proof (cases "Capabilities_unset Required vs c")
  case (Returns r)
  obtain e c1 where r: "r = (e, c1)" by (cases r)
  from unset_frame[OF Returns[unfolded r]] assms have "lock c1 = Some Unlocked" by simp
  then have "c1\<lparr>lock := Some Unlocked\<rparr> = c1" by (cases c1) simp
  with assms Returns r show ?thesis
    by (simp add: Capabilities_Unrequire_def Mutex_Lock_def Mutex_Unlock_def and_then_def unset_lock)
next
  case Panics
  with assms show ?thesis
    by (simp add: Capabilities_Unrequire_def Mutex_Lock_def and_then_def unset_lock)
next
  case Blocks
  with assms show ?thesis
    by (simp add: Capabilities_Unrequire_def Mutex_Lock_def and_then_def unset_lock)
qed

text \<open>The tail shared by the three ring methods, with the mutex held.\<close>

lemma unlock_held:
  "lock c = Some Locked \<Longrightarrow> deferred_Unlock (e, c, w) = Returns (e, c\<lparr>lock := Some Unlocked\<rparr>, w)"
  by (simp add: deferred_Unlock_def Mutex_Unlock_def and_then_def)

lemma relock: "lock c = Some Unlocked \<Longrightarrow> c\<lparr>lock := Some Unlocked\<rparr> = c"
  by (cases c) simp

lemma Privileged_eq:
  assumes "\<not> bypass c" "lock c = Some Unlocked"
  shows "Capabilities_Privileged cb (c, w) =
     (case Capabilities_apply Privileged (c, w) of
        (Some e, c1, w1) \<Rightarrow> Returns (Some e, c1, w1)
      | (None, c1, w1) \<Rightarrow>
          (case cb w1 of
             Panics \<Rightarrow> Panics
           | Blocks \<Rightarrow> Blocks
           | Returns (errCb, w2) \<Rightarrow>
               (case Capabilities_apply Unprivileged (c1, w2) of
                  (Some e, c3, w3) \<Rightarrow> Returns (Some e, c3, w3)
                | (None, c3, w3) \<Rightarrow> Returns (errCb, c3, w3))))"
proof -
  obtain e1 c1 w1 where a1: "Capabilities_apply Privileged (c, w) = (e1, c1, w1)"
    by (cases "Capabilities_apply Privileged (c, w)")
  from apply_frame[OF a1] assms have l1: "lock c1 = Some Unlocked" by simp
  show ?thesis
  proof (cases e1)
    case (Some e)
    with assms a1 l1 show ?thesis
      by (simp add: Capabilities_Privileged_def Mutex_Lock_def and_then_def apply_lock unlock_held relock)
  next
    case None
    show ?thesis
    proof (cases "cb w1")
      case (Returns r)
      obtain errCb w2 where r: "r = (errCb, w2)" by (cases r)
      obtain e3 c3 w3 where a3: "Capabilities_apply Unprivileged (c1, w2) = (e3, c3, w3)"
        by (cases "Capabilities_apply Unprivileged (c1, w2)")
      from apply_frame[OF a3] l1 have l3: "lock c3 = Some Unlocked" by simp
      from assms a1 None Returns r a3 l3 show ?thesis
        by (cases e3)
           (simp_all add: Capabilities_Privileged_def Mutex_Lock_def and_then_def apply_lock unlock_held relock)
    next
      case Panics
      with assms a1 None show ?thesis
        by (simp add: Capabilities_Privileged_def Mutex_Lock_def and_then_def apply_lock)
    next
      case Blocks
      with assms a1 None show ?thesis
        by (simp add: Capabilities_Privileged_def Mutex_Lock_def and_then_def apply_lock)
    qed
  qed
qed

lemma Required_eq:
  assumes "\<not> bypass c" "lock c = Some Unlocked"
  shows "Capabilities_Required cb (c, w) =
     (case Capabilities_apply Required (c, w) of
        (Some e, c1, w1) \<Rightarrow> Returns (Some e, c1, w1)
      | (None, c1, w1) \<Rightarrow>
          (case cb w1 of
             Panics \<Rightarrow> Panics
           | Blocks \<Rightarrow> Blocks
           | Returns (errCb, w2) \<Rightarrow>
               (case Capabilities_apply Unprivileged (c1, w2) of
                  (Some e, c3, w3) \<Rightarrow> Returns (Some e, c3, w3)
                | (None, c3, w3) \<Rightarrow> Returns (errCb, c3, w3))))"
proof -
  obtain e1 c1 w1 where a1: "Capabilities_apply Required (c, w) = (e1, c1, w1)"
    by (cases "Capabilities_apply Required (c, w)")
  from apply_frame[OF a1] assms have l1: "lock c1 = Some Unlocked" by simp
  show ?thesis
  proof (cases e1)
    case (Some e)
    with assms a1 l1 show ?thesis
      by (simp add: Capabilities_Required_def Mutex_Lock_def and_then_def apply_lock unlock_held relock)
  next
    case None
    show ?thesis
    proof (cases "cb w1")
      case (Returns r)
      obtain errCb w2 where r: "r = (errCb, w2)" by (cases r)
      obtain e3 c3 w3 where a3: "Capabilities_apply Unprivileged (c1, w2) = (e3, c3, w3)"
        by (cases "Capabilities_apply Unprivileged (c1, w2)")
      from apply_frame[OF a3] l1 have l3: "lock c3 = Some Unlocked" by simp
      from assms a1 None Returns r a3 l3 show ?thesis
        by (cases e3)
           (simp_all add: Capabilities_Required_def Mutex_Lock_def and_then_def apply_lock unlock_held relock)
    next
      case Panics
      with assms a1 None show ?thesis
        by (simp add: Capabilities_Required_def Mutex_Lock_def and_then_def apply_lock)
    next
      case Blocks
      with assms a1 None show ?thesis
        by (simp add: Capabilities_Required_def Mutex_Lock_def and_then_def apply_lock)
    qed
  qed
qed


lemma Requested_eq:
  assumes "\<not> bypass c" "lock c = Some Unlocked"
  shows "Capabilities_Requested cb values (c, w) =
     (case Capabilities_set Requested values c of
        Panics \<Rightarrow> Panics
      | Blocks \<Rightarrow> Blocks
      | Returns (err0, c0) \<Rightarrow>
          (case Capabilities_apply Requested (c0, w) of
             (Some e, c1, w1) \<Rightarrow> Returns (Some e, c1, w1)
           | (None, c1, w1) \<Rightarrow>
               (case Capabilities_unset Requested values c1 of
                  Panics \<Rightarrow> Panics
                | Blocks \<Rightarrow> Blocks
                | Returns (err2, c2) \<Rightarrow>
                    (case cb w1 of
                       Panics \<Rightarrow> Panics
                     | Blocks \<Rightarrow> Blocks
                     | Returns (errCb, w2) \<Rightarrow>
                         (case Capabilities_apply Unprivileged (c2, w2) of
                            (Some e, c3, w3) \<Rightarrow> Returns (Some e, c3, w3)
                          | (None, c3, w3) \<Rightarrow> Returns (errCb, c3, w3))))))"
proof (cases "Capabilities_set Requested values c")
  case Panics
  with assms show ?thesis
    by (simp add: Capabilities_Requested_def Mutex_Lock_def and_then_def set_lock)
next
  case Blocks
  with assms show ?thesis
    by (simp add: Capabilities_Requested_def Mutex_Lock_def and_then_def set_lock)
next
  case (Returns r0)
  obtain err0 c0 where r0: "r0 = (err0, c0)" by (cases r0)
  note f0 = set_frame[OF Returns[unfolded r0]]
  from f0 assms have l0: "lock c0 = Some Unlocked" and e0: "err0 = None" by simp_all
  obtain e1 c1 w1 where a1: "Capabilities_apply Requested (c0, w) = (e1, c1, w1)"
    by (cases "Capabilities_apply Requested (c0, w)")
  from apply_frame[OF a1] l0 have l1: "lock c1 = Some Unlocked" by simp
  show ?thesis
  proof (cases e1)
    case (Some e)
    with assms Returns r0 e0 a1 l1 show ?thesis
      by (simp add: Capabilities_Requested_def Mutex_Lock_def and_then_def set_lock apply_lock
            unlock_held relock)
  next
    case None
    show ?thesis
    proof (cases "Capabilities_unset Requested values c1")
      case Panics
      with assms Returns r0 e0 a1 None show ?thesis
        by (simp add: Capabilities_Requested_def Mutex_Lock_def and_then_def set_lock apply_lock
              unset_lock)
    next
      case Blocks
      with assms Returns r0 e0 a1 None show ?thesis
        by (simp add: Capabilities_Requested_def Mutex_Lock_def and_then_def set_lock apply_lock
              unset_lock)
    next
      case u: (Returns r2)
      obtain err2 c2 where r2: "r2 = (err2, c2)" by (cases r2)
      note f2 = unset_frame[OF u[unfolded r2]]
      from f2 l1 have l2: "lock c2 = Some Unlocked" and e2: "err2 = None" by simp_all
      show ?thesis
      proof (cases "cb w1")
        case Panics
        with assms Returns r0 e0 a1 None u r2 e2 show ?thesis
          by (simp add: Capabilities_Requested_def Mutex_Lock_def and_then_def set_lock apply_lock
                unset_lock)
      next
        case Blocks
        with assms Returns r0 e0 a1 None u r2 e2 show ?thesis
          by (simp add: Capabilities_Requested_def Mutex_Lock_def and_then_def set_lock apply_lock
                unset_lock)
      next
        case cbr: (Returns r)
        obtain errCb w2 where r: "r = (errCb, w2)" by (cases r)
        obtain e3 c3 w3 where a3: "Capabilities_apply Unprivileged (c2, w2) = (e3, c3, w3)"
          by (cases "Capabilities_apply Unprivileged (c2, w2)")
        from apply_frame[OF a3] l2 have l3: "lock c3 = Some Unlocked" by simp
        from assms Returns r0 e0 a1 None u r2 e2 cbr r a3 l3 show ?thesis
          by (cases e3)
             (simp_all add: Capabilities_Requested_def Mutex_Lock_def and_then_def set_lock
                apply_lock unset_lock unlock_held relock)
      qed
    qed
  qed
qed

subsection \<open>Initialization\<close>

lemma and_then_Returns:
  "and_then m f = Returns y \<longleftrightarrow> (\<exists>x. m = Returns x \<and> f x = Returns y)"
  by (cases m) (simp_all add: and_then_def)

lemma DropBound_frame:
  "proc_caps (snd (cap_DropBound k w)) = proc_caps w \<and>
   perf_event_paranoid (snd (cap_DropBound k w)) = perf_event_paranoid w \<and>
   (faults w = [] \<longrightarrow> faults (snd (cap_DropBound k w)) = [])"
  by (simp add: cap_DropBound_def next_fault_def split: list.splits option.splits)

lemma drop_all_bound_frame:
  "proc_caps (drop_all_bound tab w) = proc_caps w \<and>
   perf_event_paranoid (drop_all_bound tab w) = perf_event_paranoid w \<and>
   (faults w = [] \<longrightarrow> faults (drop_all_bound tab w) = [])"
proof -
  have "proc_caps (fold (\<lambda>k w1. snd (cap_DropBound k w1)) ks w) = proc_caps w \<and>
        perf_event_paranoid (fold (\<lambda>k w1. snd (cap_DropBound k w1)) ks w) = perf_event_paranoid w \<and>
        (faults w = [] \<longrightarrow> faults (fold (\<lambda>k w1. snd (cap_DropBound k w1)) ks w) = [])" for ks
  proof (induction ks arbitrary: w)
    case Nil
    show ?case by simp
  next
    case (Cons k ks)
    from Cons.IH[of "snd (cap_DropBound k w)"] DropBound_frame[of k w] show ?case by simp
  qed
  then show ?thesis by (simp add: drop_all_bound_def)
qed

lemma paranoid_depends:
  "perf_event_paranoid w1 = perf_event_paranoid w \<Longrightarrow>
     getKernelPerfEventParanoidValue pf w1 = getKernelPerfEventParanoidValue pf w"
  by (simp add: getKernelPerfEventParanoidValue_def)

lemma Membership_seed:
  "all c = seed_all n \<Longrightarrow> Membership c k r = (r = Privileged \<and> k < n)"
  by (simp add: Membership_def map_of_seed_all ring_flag_def)

lemma Membership_cong: "all c1 = all c \<Longrightarrow> Membership c1 k r = Membership c k r"
  by (simp add: Membership_def)

lemma Require_step:
  assumes "\<not> bypass c" "lock c = Some Unlocked" "Capabilities_Require vs c = Returns (e, c1)"
  shows "\<not> bypass c1 \<and> lock c1 = Some Unlocked \<and> map fst (all c1) = map fst (all c) \<and>
         initialized c1 = initialized c \<and> have_set c1 = have_set c \<and> e = None \<and>
         (\<forall>k r. Membership c1 k r = (if r = Required \<and> k \<in> set vs then True else Membership c k r))"
proof -
  from assms have s: "Capabilities_set Required vs c = Returns (e, c1)" by (simp add: Require_eq)
  from set_frame[OF s] set_Membership[OF s] assms show ?thesis by simp
qed

lemma Unrequire_step:
  assumes "\<not> bypass c" "lock c = Some Unlocked" "Capabilities_Unrequire vs c = Returns (e, c1)"
  shows "\<not> bypass c1 \<and> lock c1 = Some Unlocked \<and> map fst (all c1) = map fst (all c) \<and>
         initialized c1 = initialized c \<and> have_set c1 = have_set c \<and> e = None \<and>
         (\<forall>k r. Membership c1 k r = (if r = Required \<and> k \<in> set vs then False else Membership c k r))"
proof -
  from assms have s: "Capabilities_unset Required vs c = Returns (e, c1)" by (simp add: Unrequire_eq)
  from unset_frame[OF s] unset_Membership[OF s] assms show ?thesis by simp
qed

text \<open>What a manager looks like once the table is seeded.\<close>

lemma initialize_post:
  assumes ni: "\<not> initialized c0" and nb: "\<not> bypass c0"
    and ret: "Capabilities_initialize pf False (c0, w0) = Returns (e, c, w)"
  shows "(\<not> bypass c \<and> \<not> initialized c \<and> lock c = Some Unlocked \<and>
         map fst (all c) = [0..<MaxBits pf] \<and>
         (\<forall>k. Membership c k Privileged = (k < MaxBits pf)) \<and>
         (\<forall>k. \<not> Membership c k Unprivileged) \<and> (\<forall>k. \<not> Membership c k Requested) \<and>
         (e = None \<or> adapter_error e)) \<and>
         (e = None \<longrightarrow>
            (\<forall>k. Membership c k Required =
               (k \<in> {cap_IPC_LOCK, cap_SYS_RESOURCE} \<union>
                     (if 2 < fst (getKernelPerfEventParanoidValue pf w0) then {cap_SYS_ADMIN} else {}) \<union>
                     (if cap_BPF \<in> proc_caps w0 Permitted then {cap_BPF, cap_PERFMON}
                      else {cap_SYS_ADMIN}))) \<and>
            active_ring_is Unprivileged c w)"
    (is "?inv c \<and> (e = None \<longrightarrow> ?req c)")
proof -
  define c1 where "c1 = c0\<lparr>lock := Some Unlocked, all := seed_all (MaxBits pf)\<rparr>"
  obtain e1 c2 w1 where gp: "Capabilities_getProc (c1, w0) = (e1, c2, w1)"
    by (cases "Capabilities_getProc (c1, w0)")
  note g = getProc_cases[OF gp]
  have m1: "Membership c1 k r = (r = Privileged \<and> k < MaxBits pf)" for k r
    by (rule Membership_seed) (simp add: c1_def)
  have m2: "Membership c2 k r = (r = Privileged \<and> k < MaxBits pf)" for k r
    using g m1 Membership_cong[of c2 c1] by simp
  have i2: "\<not> bypass c2 \<and> \<not> initialized c2 \<and> lock c2 = Some Unlocked \<and>
            map fst (all c2) = [0..<MaxBits pf]"
    using g ni nb by (simp add: c1_def keys_seed_all)
  show ?thesis
  proof (cases e1)
    case (Some a)
    with ret ni gp have "c = c2" "e = Some a"
      by (simp_all add: Capabilities_initialize_def c1_def)
    with i2 m2 g Some show ?thesis by simp
  next
    case None
    with g have h2: "have_set c2 = Some (proc_caps w0)" by simp
    obtain e2 c3 w2 where sp: "Capabilities_setProc (c2, drop_all_bound (all c2) w1) = (e2, c3, w2)"
      by (cases "Capabilities_setProc (c2, drop_all_bound (all c2) w1)")
    note s = setProc_cases[OF sp]
    from s have c3: "c3 = c2" by simp
    show ?thesis
    proof (cases e2)
      case (Some a)
      with ret ni gp None sp have "c = c3" "e = Some a"
        by (simp_all add: Capabilities_initialize_def c1_def)
      with c3 i2 m2 s Some show ?thesis by simp
    next
      case n2: None
      have pw2: "perf_event_paranoid w2 = perf_event_paranoid w0"
        using s g drop_all_bound_frame[of "all c2" w1] by simp
      define p where "p = fst (getKernelPerfEventParanoidValue pf w0)"
      have pv: "getKernelPerfEventParanoidValue pf w2 = (p, snd (getKernelPerfEventParanoidValue pf w0))"
        using paranoid_depends[OF pw2, of pf] by (simp add: p_def)
      define hasBPF where "hasBPF = (cap_BPF \<in> proc_caps w0 Permitted)"
      from ret ni gp None sp n2 c3 pv
      have "and_then (Capabilities_Require [cap_IPC_LOCK, cap_SYS_RESOURCE] c2) (\<lambda>(_, c3).
              and_then (if 2 < p then Capabilities_Require [cap_SYS_ADMIN] c3 else Returns (None, c3))
                (\<lambda>(_, c4).
                  (case cap_GetFlag (have_set c4) Permitted cap_BPF of (hasBPF, _) \<Rightarrow>
                     and_then
                       (if hasBPF then Capabilities_Require [cap_BPF, cap_PERFMON] c4
                        else Capabilities_Require [cap_SYS_ADMIN] c4)
                       (\<lambda>(_, c5). Returns (Capabilities_apply Unprivileged (c5, w2))))))
            = Returns (e, c, w)"
        by (simp add: Capabilities_initialize_def c1_def)
      then obtain x4 c4 where r4: "Capabilities_Require [cap_IPC_LOCK, cap_SYS_RESOURCE] c2 = Returns (x4, c4)"
        and rest4: "and_then (if 2 < p then Capabilities_Require [cap_SYS_ADMIN] c4 else Returns (None, c4))
                (\<lambda>(_, c4).
                  (case cap_GetFlag (have_set c4) Permitted cap_BPF of (hasBPF, _) \<Rightarrow>
                     and_then
                       (if hasBPF then Capabilities_Require [cap_BPF, cap_PERFMON] c4
                        else Capabilities_Require [cap_SYS_ADMIN] c4)
                       (\<lambda>(_, c5). Returns (Capabilities_apply Unprivileged (c5, w2)))))
            = Returns (e, c, w)"
        by (auto simp: and_then_Returns)
      from i2 have nb2: "\<not> bypass c2" and l2: "lock c2 = Some Unlocked" by simp_all
      note q4 = Require_step[OF nb2 l2 r4]
      from q4 have nb4: "\<not> bypass c4" and l4: "lock c4 = Some Unlocked" by simp_all
      from rest4 obtain x5 c5 where
        r5: "(if 2 < p then Capabilities_Require [cap_SYS_ADMIN] c4 else Returns (None, c4)) = Returns (x5, c5)"
        and rest5: "(case cap_GetFlag (have_set c5) Permitted cap_BPF of (hasBPF, _) \<Rightarrow>
                     and_then
                       (if hasBPF then Capabilities_Require [cap_BPF, cap_PERFMON] c5
                        else Capabilities_Require [cap_SYS_ADMIN] c5)
                       (\<lambda>(_, c5). Returns (Capabilities_apply Unprivileged (c5, w2))))
            = Returns (e, c, w)"
        by (auto simp: and_then_Returns)
      have q5: "\<not> bypass c5 \<and> lock c5 = Some Unlocked \<and> map fst (all c5) = map fst (all c4) \<and>
         initialized c5 = initialized c4 \<and> have_set c5 = have_set c4 \<and>
         (\<forall>k r. Membership c5 k r =
            (if r = Required \<and> 2 < p \<and> k = cap_SYS_ADMIN then True else Membership c4 k r))"
      proof (cases "2 < p")
        case True
        with r5 have "Capabilities_Require [cap_SYS_ADMIN] c4 = Returns (x5, c5)" by simp
        from Require_step[OF nb4 l4 this] True show ?thesis by simp
      next
        case False
        with r5 have "c5 = c4" by simp
        with False nb4 l4 show ?thesis by simp
      qed
      from q5 have nb5: "\<not> bypass c5" and l5: "lock c5 = Some Unlocked" by simp_all
      from q5 q4 h2 have h5: "have_set c5 = Some (proc_caps w0)" by simp
      from rest5 h5 obtain x6 c6 where
        r6: "(if hasBPF then Capabilities_Require [cap_BPF, cap_PERFMON] c5
              else Capabilities_Require [cap_SYS_ADMIN] c5) = Returns (x6, c6)"
        and fin: "Capabilities_apply Unprivileged (c6, w2) = (e, c, w)"
        by (auto simp: and_then_Returns cap_GetFlag_def hasBPF_def)
      have q6: "\<not> bypass c6 \<and> lock c6 = Some Unlocked \<and> map fst (all c6) = map fst (all c5) \<and>
         initialized c6 = initialized c5 \<and>
         (\<forall>k r. Membership c6 k r =
            (if r = Required \<and> k \<in> (if hasBPF then {cap_BPF, cap_PERFMON} else {cap_SYS_ADMIN})
             then True else Membership c5 k r))"
      proof (cases hasBPF)
        case True
        with r6 have "Capabilities_Require [cap_BPF, cap_PERFMON] c5 = Returns (x6, c6)" by simp
        from Require_step[OF nb5 l5 this] True show ?thesis by simp
      next
        case False
        with r6 have "Capabilities_Require [cap_SYS_ADMIN] c5 = Returns (x6, c6)" by simp
        from Require_step[OF nb5 l5 this] False show ?thesis by simp
      qed
      note a = apply_frame[OF fin]
      have mc: "Membership c k r = Membership c6 k r" for k r
        using a Membership_cong[of c c6] by simp
      have inv: "?inv c"
        using a q6 q5 q4 i2 m2 mc by simp
      have req: "\<forall>k. Membership c k Required =
               (k \<in> {cap_IPC_LOCK, cap_SYS_RESOURCE} \<union>
                     (if 2 < fst (getKernelPerfEventParanoidValue pf w0) then {cap_SYS_ADMIN} else {}) \<union>
                     (if cap_BPF \<in> proc_caps w0 Permitted then {cap_BPF, cap_PERFMON}
                      else {cap_SYS_ADMIN}))"
        using q6 q5 q4 m2 mc by (auto simp: p_def hasBPF_def)
      have act: "active_ring_is Unprivileged c w" if "e = None"
      proof -
        from q6 q5 q4 i2 have "distinct (map fst (all c6))" by simp
        from apply_effect[OF fin[unfolded that] this] a show ?thesis
          by (simp add: active_ring_is_def list_all_iff)
      qed
      from inv req act show ?thesis by simp
    qed
  qed
qed

subsection \<open>How the ring methods return\<close>

lemma Returns_needs_lock:
  "\<not> bypass c \<Longrightarrow> and_then (Mutex_Lock (lock c)) f = Returns r \<Longrightarrow> lock c = Some Unlocked"
  by (auto simp: and_then_Returns Mutex_Lock_def split: option.splits Mutex.splits)

lemma Privileged_lock:
  "\<not> bypass c \<Longrightarrow> Capabilities_Privileged cb (c, w) = Returns r \<Longrightarrow> lock c = Some Unlocked"
  by (simp add: Capabilities_Privileged_def) (erule (1) Returns_needs_lock)

lemma Required_lock:
  "\<not> bypass c \<Longrightarrow> Capabilities_Required cb (c, w) = Returns r \<Longrightarrow> lock c = Some Unlocked"
  by (simp add: Capabilities_Required_def) (erule (1) Returns_needs_lock)

lemma Requested_lock:
  "\<not> bypass c \<Longrightarrow> Capabilities_Requested cb values (c, w) = Returns r \<Longrightarrow> lock c = Some Unlocked"
  by (simp add: Capabilities_Requested_def) (erule (1) Returns_needs_lock)

lemma Require_lock:
  "\<not> bypass c \<Longrightarrow> Capabilities_Require values c = Returns r \<Longrightarrow> lock c = Some Unlocked"
  by (simp add: Capabilities_Require_def) (erule (1) Returns_needs_lock)

lemma Unrequire_lock:
  "\<not> bypass c \<Longrightarrow> Capabilities_Unrequire values c = Returns r \<Longrightarrow> lock c = Some Unlocked"
  by (simp add: Capabilities_Unrequire_def) (erule (1) Returns_needs_lock)

text \<open>The ways a ring method can return.\<close>

lemma Privileged_Returns:
  assumes nb: "\<not> bypass c" and ret: "Capabilities_Privileged cb (c, w) = Returns (e, c', w')"
  obtains
    (elevate_failed) err where "Capabilities_apply Privileged (c, w) = (Some err, c', w')" "e = Some err"
  | (restored) c1 w1 errCb w2 e3 where
      "Capabilities_apply Privileged (c, w) = (None, c1, w1)" "cb w1 = Returns (errCb, w2)"
      "Capabilities_apply Unprivileged (c1, w2) = (e3, c', w')"
      "e = (case e3 of Some err \<Rightarrow> Some err | None \<Rightarrow> errCb)"
proof -
  from Privileged_lock[OF nb ret] have lk: "lock c = Some Unlocked" .
  obtain e1 c1 w1 where a1: "Capabilities_apply Privileged (c, w) = (e1, c1, w1)"
    by (cases "Capabilities_apply Privileged (c, w)")
  show thesis
  proof (cases e1)
    case (Some err)
    with ret a1 have "c' = c1" "w' = w1" "e = Some err"
      by (simp_all add: Privileged_eq[OF nb lk])
    with a1 Some show thesis by (auto intro: elevate_failed)
  next
    case None
    with ret a1 obtain errCb w2 where cbr: "cb w1 = Returns (errCb, w2)"
      by (cases "cb w1") (auto simp: Privileged_eq[OF nb lk])
    obtain e3 c3 w3 where a3: "Capabilities_apply Unprivileged (c1, w2) = (e3, c3, w3)"
      by (cases "Capabilities_apply Unprivileged (c1, w2)")
    with ret a1 None cbr have "c' = c3 \<and> w' = w3 \<and> e = (case e3 of Some err \<Rightarrow> Some err | None \<Rightarrow> errCb)"
      by (cases e3) (auto simp: Privileged_eq[OF nb lk])
    with a1 None cbr a3 show thesis by (auto intro: restored)
  qed
qed

lemma Required_Returns:
  assumes nb: "\<not> bypass c" and ret: "Capabilities_Required cb (c, w) = Returns (e, c', w')"
  obtains
    (elevate_failed) err where "Capabilities_apply Required (c, w) = (Some err, c', w')" "e = Some err"
  | (restored) c1 w1 errCb w2 e3 where
      "Capabilities_apply Required (c, w) = (None, c1, w1)" "cb w1 = Returns (errCb, w2)"
      "Capabilities_apply Unprivileged (c1, w2) = (e3, c', w')"
      "e = (case e3 of Some err \<Rightarrow> Some err | None \<Rightarrow> errCb)"
proof -
  from Required_lock[OF nb ret] have lk: "lock c = Some Unlocked" .
  obtain e1 c1 w1 where a1: "Capabilities_apply Required (c, w) = (e1, c1, w1)"
    by (cases "Capabilities_apply Required (c, w)")
  show thesis
  proof (cases e1)
    case (Some err)
    with ret a1 have "c' = c1" "w' = w1" "e = Some err"
      by (simp_all add: Required_eq[OF nb lk])
    with a1 Some show thesis by (auto intro: elevate_failed)
  next
    case None
    with ret a1 obtain errCb w2 where cbr: "cb w1 = Returns (errCb, w2)"
      by (cases "cb w1") (auto simp: Required_eq[OF nb lk])
    obtain e3 c3 w3 where a3: "Capabilities_apply Unprivileged (c1, w2) = (e3, c3, w3)"
      by (cases "Capabilities_apply Unprivileged (c1, w2)")
    with ret a1 None cbr have "c' = c3 \<and> w' = w3 \<and> e = (case e3 of Some err \<Rightarrow> Some err | None \<Rightarrow> errCb)"
      by (cases e3) (auto simp: Required_eq[OF nb lk])
    with a1 None cbr a3 show thesis by (auto intro: restored)
  qed
qed

lemma Requested_Returns:
  assumes nb: "\<not> bypass c" and ret: "Capabilities_Requested cb values (c, w) = Returns (e, c', w')"
  obtains
    (elevate_failed) c0 err where
      "Capabilities_set Requested values c = Returns (None, c0)"
      "Capabilities_apply Requested (c0, w) = (Some err, c', w')" "e = Some err"
  | (restored) c0 c1 w1 c2 errCb w2 e3 where
      "Capabilities_set Requested values c = Returns (None, c0)"
      "Capabilities_apply Requested (c0, w) = (None, c1, w1)"
      "Capabilities_unset Requested values c1 = Returns (None, c2)"
      "cb w1 = Returns (errCb, w2)"
      "Capabilities_apply Unprivileged (c2, w2) = (e3, c', w')"
      "e = (case e3 of Some err \<Rightarrow> Some err | None \<Rightarrow> errCb)"
proof -
  from Requested_lock[OF nb ret] have lk: "lock c = Some Unlocked" .
  note eq = Requested_eq[OF nb lk, of cb "values" w]
  from ret eq obtain err0 c0 where s0: "Capabilities_set Requested values c = Returns (err0, c0)"
    by (cases "Capabilities_set Requested values c") auto
  from set_frame[OF s0] have e0: "err0 = None" by simp
  obtain e1 c1 w1 where a1: "Capabilities_apply Requested (c0, w) = (e1, c1, w1)"
    by (cases "Capabilities_apply Requested (c0, w)")
  show thesis
  proof (cases e1)
    case (Some err)
    with ret eq s0 a1 have "c' = c1" "w' = w1" "e = Some err" by simp_all
    with s0 e0 a1 Some show thesis by (auto intro: elevate_failed)
  next
    case None
    with ret eq s0 a1 obtain err2 c2 where u2: "Capabilities_unset Requested values c1 = Returns (err2, c2)"
      by (cases "Capabilities_unset Requested values c1") auto
    from unset_frame[OF u2] have e2: "err2 = None" by simp
    from ret eq s0 a1 None u2 obtain errCb w2 where cbr: "cb w1 = Returns (errCb, w2)"
      by (cases "cb w1") auto
    obtain e3 c3 w3 where a3: "Capabilities_apply Unprivileged (c2, w2) = (e3, c3, w3)"
      by (cases "Capabilities_apply Unprivileged (c2, w2)")
    with ret eq s0 a1 None u2 cbr
    have "c' = c3 \<and> w' = w3 \<and> e = (case e3 of Some err \<Rightarrow> Some err | None \<Rightarrow> errCb)"
      by (cases e3) auto
    with s0 e0 a1 None u2 e2 cbr a3 show thesis by (auto intro: restored)
  qed
qed

subsection \<open>Runs of calls\<close>

text \<open>Every call keeps the keys of the table and its Privileged and Unprivileged columns.\<close>

lemma api_step_keeps:
  assumes nb: "\<not> bypass c" and st: "api_step a (c, w) = Returns (e, c', w')"
  shows "\<not> bypass c' \<and> lock c' = Some Unlocked \<and> lock c = Some Unlocked \<and>
         map fst (all c') = map fst (all c) \<and>
         (\<forall>k r. r \<noteq> Required \<and> r \<noteq> Requested \<longrightarrow> Membership c' k r = Membership c k r)"
proof (cases a)
  case (Require vs)
  with st obtain e1 where r: "Capabilities_Require vs c = Returns (e1, c')"
    by (auto simp: and_then_Returns)
  from Require_step[OF nb Require_lock[OF nb r] r] Require_lock[OF nb r] show ?thesis by simp
next
  case (Unrequire vs)
  with st obtain e1 where r: "Capabilities_Unrequire vs c = Returns (e1, c')"
    by (auto simp: and_then_Returns)
  from Unrequire_step[OF nb Unrequire_lock[OF nb r] r] Unrequire_lock[OF nb r] show ?thesis by simp
next
  case (RunPrivileged cb)
  with st have r: "Capabilities_Privileged cb (c, w) = Returns (e, c', w')" by simp
  note lk = Privileged_lock[OF nb r]
  from nb r show ?thesis
  proof (cases rule: Privileged_Returns)
    case (elevate_failed err)
    from apply_frame[OF elevate_failed(1)] nb lk Membership_cong[of c' c] show ?thesis by simp
  next
    case (restored c1 w1 errCb w2 e3)
    from apply_frame[OF restored(1)] apply_frame[OF restored(3)] nb lk Membership_cong[of c' c]
    show ?thesis by simp
  qed
next
  case (RunRequired cb)
  with st have r: "Capabilities_Required cb (c, w) = Returns (e, c', w')" by simp
  note lk = Required_lock[OF nb r]
  from nb r show ?thesis
  proof (cases rule: Required_Returns)
    case (elevate_failed err)
    from apply_frame[OF elevate_failed(1)] nb lk Membership_cong[of c' c] show ?thesis by simp
  next
    case (restored c1 w1 errCb w2 e3)
    from apply_frame[OF restored(1)] apply_frame[OF restored(3)] nb lk Membership_cong[of c' c]
    show ?thesis by simp
  qed
next
  case (RunRequested cb vs)
  with st have r: "Capabilities_Requested cb vs (c, w) = Returns (e, c', w')" by simp
  note lk = Requested_lock[OF nb r]
  from nb r show ?thesis
  proof (cases rule: Requested_Returns)
    case (elevate_failed c0 err)
    note f0 = set_frame[OF elevate_failed(1)] 
    note m0 = set_Membership[OF elevate_failed(1)]
    from apply_frame[OF elevate_failed(2)] f0 m0 nb lk Membership_cong[of c' c0] show ?thesis by simp
  next
    case (restored c0 c1 w1 c2 errCb w2 e3)
    note f0 = set_frame[OF restored(1)]
    note m0 = set_Membership[OF restored(1)]
    note f2 = unset_frame[OF restored(3)]
    note m2 = unset_Membership[OF restored(3)]
    from apply_frame[OF restored(2)] apply_frame[OF restored(5)] f0 m0 f2 m2 nb lk
      Membership_cong[of c' c2] Membership_cong[of c1 c0]
    show ?thesis by simp
  qed
qed

lemma api_run_keeps:
  assumes "\<not> bypass c" "lock c = Some Unlocked" "api_run calls (c, w) = Returns (c', w')"
  shows "\<not> bypass c' \<and> lock c' = Some Unlocked \<and> map fst (all c') = map fst (all c) \<and>
         (\<forall>k r. r \<noteq> Required \<and> r \<noteq> Requested \<longrightarrow> Membership c' k r = Membership c k r)"
  using assms
proof (induction calls arbitrary: c w)
  case Nil
  then show ?case by simp
next
  case (Cons a calls)
  from Cons.prems(3) obtain e1 c1 w1 where st: "api_step a (c, w) = Returns (e1, c1, w1)"
    and rest: "api_run calls (c1, w1) = Returns (c', w')"
    by (auto simp: and_then_Returns)
  note k = api_step_keeps[OF Cons.prems(1) st]
  from k have nb1: "\<not> bypass c1" and l1: "lock c1 = Some Unlocked" by simp_all
  from Cons.IH[OF nb1 l1 rest] k show ?case by simp
qed

lemma NewCapabilities_post:
  assumes "NewCapabilities pf False (Caps, w0) = Returns (e, c, w)"
  shows "(\<not> bypass c \<and> \<not> initialized c \<and> lock c = Some Unlocked \<and>
         map fst (all c) = [0..<MaxBits pf] \<and>
         (\<forall>k. Membership c k Privileged = (k < MaxBits pf)) \<and>
         (\<forall>k. \<not> Membership c k Unprivileged) \<and> (\<forall>k. \<not> Membership c k Requested) \<and>
         (e = None \<or> adapter_error e)) \<and>
         (e = None \<longrightarrow>
            (\<forall>k. Membership c k Required =
               (k \<in> {cap_IPC_LOCK, cap_SYS_RESOURCE} \<union>
                     (if 2 < fst (getKernelPerfEventParanoidValue pf w0) then {cap_SYS_ADMIN} else {}) \<union>
                     (if cap_BPF \<in> proc_caps w0 Permitted then {cap_BPF, cap_PERFMON}
                      else {cap_SYS_ADMIN}))) \<and>
            active_ring_is Unprivileged c w)"
proof -
  have "\<not> initialized Capabilities_zero" "\<not> bypass Capabilities_zero"
    by (simp_all add: Capabilities_zero_def)
  moreover from assms have "Capabilities_initialize pf False (Capabilities_zero, w0) = Returns (e, c, w)"
    by (simp add: NewCapabilities_def)
  ultimately show ?thesis by (rule initialize_post)
qed

subsection \<open>Runs without a failing library call\<close>

lemma apply_loop_no_faults:
  "faults w = [] \<Longrightarrow> \<exists>flags1. apply_loop t kvs (Some flags, w) = (None, Some flags1, w)"
proof (induction kvs arbitrary: flags)
  case Nil
  then show ?case by simp
next
  case (Cons kv kvs)
  obtain k v where kv: "kv = (k, v)" by (cases kv)
  define flags0 where
    "flags0 = flags(Effective := (if ring_flag v t then insert k (flags Effective) else flags Effective - {k}))"
  from Cons.prems have "cap_SetFlag (Some flags) Effective (ring_flag v t) k w = (None, Some flags0, w)"
    by (simp add: cap_SetFlag_def next_fault_def flags0_def)
  with Cons.IH[OF Cons.prems, of flags0] kv show ?case by simp
qed

lemma getProc_no_faults:
  "faults w = [] \<Longrightarrow>
     Capabilities_getProc (c, w) =
       (None, c\<lparr>have_set := Some (proc_caps w)\<rparr>, w\<lparr>oslog := oslog w @ [OsGetPID]\<rparr>)"
  by (simp add: Capabilities_getProc_def cap_GetPID_def next_fault_def)

lemma setProc_no_faults:
  "faults w = [] \<Longrightarrow> have_set c = Some flags \<Longrightarrow>
     Capabilities_setProc (c, w) = (None, c, w\<lparr>proc_caps := flags, oslog := oslog w @ [OsSetProc]\<rparr>)"
  by (simp add: Capabilities_setProc_def cap_SetProc_def next_fault_def)

lemma apply_succeeds:
  assumes "faults w = []"
  shows "\<exists>c1 w1. Capabilities_apply t (c, w) = (None, c1, w1) \<and> faults w1 = []"
proof -
  define w0 where "w0 = w\<lparr>oslog := oslog w @ [OsGetPID]\<rparr>"
  define c0 where "c0 = c\<lparr>have_set := Some (proc_caps w)\<rparr>"
  from assms have f0: "faults w0 = []" by (simp add: w0_def)
  from apply_loop_no_faults[OF f0, of t "all c0" "proc_caps w"] obtain flags1 where
    lp: "apply_loop t (all c0) (Some (proc_caps w), w0) = (None, Some flags1, w0)" by blast
  have "Capabilities_setProc (c0\<lparr>have_set := Some flags1\<rparr>, w0) =
      (None, c0\<lparr>have_set := Some flags1\<rparr>, w0\<lparr>proc_caps := flags1, oslog := oslog w0 @ [OsSetProc]\<rparr>)"
    using f0 by (simp add: setProc_no_faults)
  with lp assms have "Capabilities_apply t (c, w) =
      (None, c0\<lparr>have_set := Some flags1\<rparr>, w0\<lparr>proc_caps := flags1, oslog := oslog w0 @ [OsSetProc]\<rparr>)"
    by (simp add: Capabilities_apply_def getProc_no_faults c0_def w0_def)
  with f0 show ?thesis by simp
qed

lemma apply_query_fails:
  "faults w = Some err # rest \<Longrightarrow>
     Capabilities_apply t (c, w) =
       (Some (couldNotGetProc err), c\<lparr>have_set := None\<rparr>,
        w\<lparr>faults := rest, oslog := oslog w @ [OsGetPID]\<rparr>)"
  by (simp add: Capabilities_apply_def Capabilities_getProc_def cap_GetPID_def next_fault_def)

lemma Require_succeeds:
  assumes "\<not> bypass c" "lock c = Some Unlocked" "set vs \<subseteq> fst ` set (all c)"
  shows "\<exists>c1. Capabilities_Require vs c = Returns (None, c1)"
  using set_Returns[OF assms(3), of Required] Require_eq[OF assms(1,2), of vs] by simp

lemma initialize_succeeds:
  assumes ni: "\<not> initialized c0" and nb: "\<not> bypass c0" and nf: "faults w0 = []"
    and mb: "cap_BPF < MaxBits pf"
  shows "\<exists>c w. Capabilities_initialize pf False (c0, w0) = Returns (None, c, w) \<and> faults w = []"
proof -
  define c1 where "c1 = c0\<lparr>lock := Some Unlocked, all := seed_all (MaxBits pf)\<rparr>"
  define c2 where "c2 = c1\<lparr>have_set := Some (proc_caps w0)\<rparr>"
  define w1 where "w1 = w0\<lparr>oslog := oslog w0 @ [OsGetPID]\<rparr>"
  define w2 where "w2 = (drop_all_bound (all c2) w1)\<lparr>proc_caps := proc_caps w0,
      oslog := oslog (drop_all_bound (all c2) w1) @ [OsSetProc]\<rparr>"
  have gp: "Capabilities_getProc (c1, w0) = (None, c2, w1)"
    using nf by (simp add: getProc_no_faults c2_def w1_def)
  have fd: "faults (drop_all_bound (all c2) w1) = []"
    using drop_all_bound_frame[of "all c2" w1] nf by (simp add: w1_def)
  have sp: "Capabilities_setProc (c2, drop_all_bound (all c2) w1) = (None, c2, w2)"
    using setProc_no_faults[OF fd, of c2 "proc_caps w0"] by (simp add: c2_def w2_def)
  have f2: "faults w2 = []" using fd by (simp add: w2_def)
  have keys2: "fst ` set (all c2) = {0..<MaxBits pf}"
    using keys_seed_all[of "MaxBits pf"] by (simp add: c2_def c1_def flip: set_map)
  have i2: "\<not> bypass c2" "lock c2 = Some Unlocked" "have_set c2 = Some (proc_caps w0)"
    using nb by (simp_all add: c2_def c1_def)
  have in_keys: "set vs \<subseteq> {cap_IPC_LOCK, cap_SYS_RESOURCE, cap_SYS_ADMIN, cap_BPF, cap_PERFMON}
      \<Longrightarrow> set vs \<subseteq> {0..<MaxBits pf}" for vs
    using mb by (auto simp: cap_IPC_LOCK_def cap_SYS_RESOURCE_def cap_SYS_ADMIN_def cap_BPF_def
        cap_PERFMON_def)
  have step: "\<not> bypass c \<Longrightarrow> lock c = Some Unlocked \<Longrightarrow> fst ` set (all c) = {0..<MaxBits pf} \<Longrightarrow>
      have_set c = Some (proc_caps w0) \<Longrightarrow>
      set vs \<subseteq> {cap_IPC_LOCK, cap_SYS_RESOURCE, cap_SYS_ADMIN, cap_BPF, cap_PERFMON} \<Longrightarrow>
      \<exists>c'. Capabilities_Require vs c = Returns (None, c') \<and> \<not> bypass c' \<and> lock c' = Some Unlocked \<and>
           fst ` set (all c') = {0..<MaxBits pf} \<and> have_set c' = Some (proc_caps w0)" for c vs
  proof -
    assume a: "\<not> bypass c" "lock c = Some Unlocked" "fst ` set (all c) = {0..<MaxBits pf}"
      "have_set c = Some (proc_caps w0)"
      "set vs \<subseteq> {cap_IPC_LOCK, cap_SYS_RESOURCE, cap_SYS_ADMIN, cap_BPF, cap_PERFMON}"
    from in_keys[OF a(5)] a(3) have "set vs \<subseteq> fst ` set (all c)" by simp
    from Require_succeeds[OF a(1,2) this] obtain c' where r: "Capabilities_Require vs c = Returns (None, c')"
      by blast
    from Require_step[OF a(1,2) r] have "\<not> bypass c'" "lock c' = Some Unlocked"
      "map fst (all c') = map fst (all c)" "have_set c' = have_set c" by simp_all
    then have "\<not> bypass c' \<and> lock c' = Some Unlocked \<and> fst ` set (all c') = fst ` set (all c) \<and>
        have_set c' = have_set c"
      by (metis list.set_map)
    with r a show ?thesis by auto
  qed
  from step[OF i2(1,2) keys2 i2(3), of "[cap_IPC_LOCK, cap_SYS_RESOURCE]"] obtain c3 where
    r3: "Capabilities_Require [cap_IPC_LOCK, cap_SYS_RESOURCE] c2 = Returns (None, c3)"
    and i3: "\<not> bypass c3" "lock c3 = Some Unlocked" "fst ` set (all c3) = {0..<MaxBits pf}"
      "have_set c3 = Some (proc_caps w0)"
    by auto
  define p where "p = fst (getKernelPerfEventParanoidValue pf w2)"
  have "\<exists>c4. (if 2 < p then Capabilities_Require [cap_SYS_ADMIN] c3 else Returns (None, c3)) = Returns (None, c4)
      \<and> \<not> bypass c4 \<and> lock c4 = Some Unlocked \<and> fst ` set (all c4) = {0..<MaxBits pf} \<and>
        have_set c4 = Some (proc_caps w0)"
    using step[OF i3, of "[cap_SYS_ADMIN]"] i3 by (cases "2 < p") auto
  then obtain c4 where
    r4: "(if 2 < p then Capabilities_Require [cap_SYS_ADMIN] c3 else Returns (None, c3)) = Returns (None, c4)"
    and i4: "\<not> bypass c4" "lock c4 = Some Unlocked" "fst ` set (all c4) = {0..<MaxBits pf}"
      "have_set c4 = Some (proc_caps w0)"
    by auto
  define hasBPF where "hasBPF = (cap_BPF \<in> proc_caps w0 Permitted)"
  have "\<exists>c5. (if hasBPF then Capabilities_Require [cap_BPF, cap_PERFMON] c4
               else Capabilities_Require [cap_SYS_ADMIN] c4) = Returns (None, c5)"
    using step[OF i4, of "[cap_BPF, cap_PERFMON]"] step[OF i4, of "[cap_SYS_ADMIN]"]
    by (cases hasBPF) auto
  then obtain c5 where
    r5: "(if hasBPF then Capabilities_Require [cap_BPF, cap_PERFMON] c4
          else Capabilities_Require [cap_SYS_ADMIN] c4) = Returns (None, c5)"
    by auto
  from apply_succeeds[OF f2, of Unprivileged c5] obtain c w where
    fin: "Capabilities_apply Unprivileged (c5, w2) = (None, c, w)" and fw: "faults w = []"
    by blast
  define pe where "pe = snd (getKernelPerfEventParanoidValue pf w2)"
  have pv: "getKernelPerfEventParanoidValue pf w2 = (p, pe)"
    by (simp add: p_def pe_def)
  have gf: "cap_GetFlag (have_set c4) Permitted cap_BPF = (hasBPF, None)"
    using i4(4) by (simp add: cap_GetFlag_def hasBPF_def)
  have "Capabilities_initialize pf False (c0, w0) = Returns (None, c, w)"
    using ni gp sp r3 r4 r5 fin gf
    by (cases "2 < p"; cases hasBPF)
       (simp_all add: Capabilities_initialize_def c1_def[symmetric] and_then_def pv)
  with fw show ?thesis by blast
qed

lemma NewCapabilities_succeeds:
  assumes "faults w0 = []" "cap_BPF < MaxBits pf"
  shows "\<exists>c w. NewCapabilities pf False (Caps, w0) = Returns (None, c, w) \<and> faults w = []"
proof -
  have "\<not> initialized Capabilities_zero" "\<not> bypass Capabilities_zero"
    by (simp_all add: Capabilities_zero_def)
  from initialize_succeeds[OF this assms] show ?thesis by (simp add: NewCapabilities_def)
qed

lemma Unrequire_succeeds:
  assumes "\<not> bypass c" "lock c = Some Unlocked" "set vs \<subseteq> fst ` set (all c)"
  shows "\<exists>c1. Capabilities_Unrequire vs c = Returns (None, c1)"
  using unset_Returns[OF assms(3), of Required] Unrequire_eq[OF assms(1,2), of vs] by simp

lemma Privileged_succeeds:
  assumes nb: "\<not> bypass c" and lk: "lock c = Some Unlocked" and nf: "faults w = []"
    and cb: "\<And>w1. cb w1 = Returns (r, w1)"
  shows "\<exists>c' w'. Capabilities_Privileged cb (c, w) = Returns (r, c', w') \<and> faults w' = []"
proof -
  from apply_succeeds[OF nf, of Privileged c] obtain c1 w1 where
    a1: "Capabilities_apply Privileged (c, w) = (None, c1, w1)" and f1: "faults w1 = []" by blast
  from apply_succeeds[OF f1, of Unprivileged c1] obtain c3 w3 where
    a3: "Capabilities_apply Unprivileged (c1, w1) = (None, c3, w3)" and f3: "faults w3 = []" by blast
  from a1 a3 f3 cb show ?thesis by (simp add: Privileged_eq[OF nb lk])
qed

lemma Required_succeeds:
  assumes nb: "\<not> bypass c" and lk: "lock c = Some Unlocked" and nf: "faults w = []"
    and cb: "\<And>w1. cb w1 = Returns (r, w1)"
  shows "\<exists>c' w'. Capabilities_Required cb (c, w) = Returns (r, c', w') \<and> faults w' = []"
proof -
  from apply_succeeds[OF nf, of Required c] obtain c1 w1 where
    a1: "Capabilities_apply Required (c, w) = (None, c1, w1)" and f1: "faults w1 = []" by blast
  from apply_succeeds[OF f1, of Unprivileged c1] obtain c3 w3 where
    a3: "Capabilities_apply Unprivileged (c1, w1) = (None, c3, w3)" and f3: "faults w3 = []" by blast
  from a1 a3 f3 cb show ?thesis by (simp add: Required_eq[OF nb lk])
qed

lemma Requested_succeeds:
  assumes nb: "\<not> bypass c" and lk: "lock c = Some Unlocked" and nf: "faults w = []"
    and cb: "\<And>w1. cb w1 = Returns (r, w1)" and vs: "set vs \<subseteq> fst ` set (all c)"
  shows "\<exists>c' w'. Capabilities_Requested cb vs (c, w) = Returns (r, c', w') \<and> faults w' = []"
proof -
  from set_Returns[OF vs, of Requested] obtain c0 where
    s0: "Capabilities_set Requested vs c = Returns (None, c0)" by blast
  from apply_succeeds[OF nf, of Requested c0] obtain c1 w1 where
    a1: "Capabilities_apply Requested (c0, w) = (None, c1, w1)" and f1: "faults w1 = []" by blast
  from set_frame[OF s0] apply_frame[OF a1] have "map fst (all c1) = map fst (all c)" by simp
  then have "fst ` set (all c1) = fst ` set (all c)" by (metis list.set_map)
  with vs have "set vs \<subseteq> fst ` set (all c1)" by simp
  from unset_Returns[OF this, of Requested] obtain c2 where
    u2: "Capabilities_unset Requested vs c1 = Returns (None, c2)" by blast
  from apply_succeeds[OF f1, of Unprivileged c2] obtain c3 w3 where
    a3: "Capabilities_apply Unprivileged (c2, w1) = (None, c3, w3)" and f3: "faults w3 = []" by blast
  from s0 a1 u2 a3 f3 cb show ?thesis by (simp add: Requested_eq[OF nb lk])
qed

lemma example_facts:
  "cap_BPF < MaxBits example_platform" "MaxBits example_platform = 41"
  "faults (example_world tunable []) = []"
  by (simp_all add: example_platform_def example_world_def cap_BPF_def)

lemma callbacks_keep_world: "cb_ok w = Returns (None, w)"
  "cb_fails w = Returns (Some (OtherError ''callback failed''), w)"
  by (simp_all add: cb_ok_def cb_fails_def)

subsection \<open>Name resolution\<close>

lemma no_hit_iff:
  "filter (\<lambda>v. cap_String pf v = given) [0..<MaxBits pf] = [] \<longleftrightarrow> given \<notin> set (ListAvailCaps pf)"
  by (auto simp: filter_empty_conv ListAvailCaps_def)

lemma ReqByString_loop_find:
  "ReqByString_loop pf names acc =
     (case find (\<lambda>n. n \<notin> set (ListAvailCaps pf)) names of
        Some n \<Rightarrow> Inl (couldNotFindCapability n)
      | None \<Rightarrow> Inr (acc @ concat (map (\<lambda>n. filter (\<lambda>v. cap_String pf v = n) [0..<MaxBits pf]) names)))"
proof (induction names arbitrary: acc)
  case Nil
  show ?case by simp
next
  case (Cons given rest)
  show ?case
  proof (cases "given \<in> set (ListAvailCaps pf)")
    case True
    then have "filter (\<lambda>v. cap_String pf v = given) [0..<MaxBits pf] \<noteq> []"
      by (simp add: no_hit_iff)
    with True Cons.IH show ?thesis by (simp add: Let_def split: option.split)
  next
    case False
    then have "filter (\<lambda>v. cap_String pf v = given) [0..<MaxBits pf] = []"
      by (simp add: no_hit_iff)
    with False show ?thesis by (simp add: Let_def)
  qed
qed

lemma example_upt: "[0..<41] = [0,1,2,3,4,5,6,7,8,9,10,11,12,13,14,15,16,17,18,19,20,21,22,23,24,25,
    26,27,28,29,30,31,32,33,34,35,36,37,38,39,40]"
  by (simp add: upt_conv_Cons)

lemma example_ListAvailCaps: "ListAvailCaps example_platform = example_names"
  by (simp add: ListAvailCaps_def example_platform_def example_upt example_names_def)

subsection \<open>Schedules, the active ring, the example platform\<close>

lemma apply_loop_consumes:
  "faults w = replicate (length kvs) None @ rest \<Longrightarrow>
     \<exists>flags1. apply_loop t kvs (Some flags, w) = (None, Some flags1, w\<lparr>faults := rest\<rparr>)"
proof (induction kvs arbitrary: flags w)
  case Nil
  then have "w\<lparr>faults := rest\<rparr> = w" by (cases w) simp
  then show ?case by simp
next
  case (Cons kv kvs)
  obtain k v where kv: "kv = (k, v)" by (cases kv)
  define flags0 where
    "flags0 = flags(Effective := (if ring_flag v t then insert k (flags Effective) else flags Effective - {k}))"
  define w0 where "w0 = w\<lparr>faults := replicate (length kvs) None @ rest\<rparr>"
  from Cons.prems have "cap_SetFlag (Some flags) Effective (ring_flag v t) k w = (None, Some flags0, w0)"
    by (simp add: cap_SetFlag_def next_fault_def flags0_def w0_def)
  moreover have "faults w0 = replicate (length kvs) None @ rest" by (simp add: w0_def)
  from Cons.IH[OF this, of flags0] obtain flags1 where
    "apply_loop t kvs (Some flags0, w0) = (None, Some flags1, w0\<lparr>faults := rest\<rparr>)" by blast
  moreover have "w0\<lparr>faults := rest\<rparr> = w\<lparr>faults := rest\<rparr>" by (simp add: w0_def)
  ultimately show ?case using kv by simp
qed

lemma apply_consumes:
  assumes "faults w = replicate (length (all c) + 2) None @ rest"
  shows "\<exists>c1 w1. Capabilities_apply t (c, w) = (None, c1, w1) \<and> faults w1 = rest"
proof -
  define w0 where "w0 = w\<lparr>faults := replicate (length (all c) + 1) None @ rest, oslog := oslog w @ [OsGetPID]\<rparr>"
  define c0 where "c0 = c\<lparr>have_set := Some (proc_caps w)\<rparr>"
  from assms have gp: "Capabilities_getProc (c, w) = (None, c0, w0)"
    by (simp add: Capabilities_getProc_def cap_GetPID_def next_fault_def c0_def w0_def)
  have "faults w0 = replicate (length (all c0)) None @ (None # rest)"
    by (simp add: w0_def c0_def replicate_append_same)
  from apply_loop_consumes[OF this, of t "proc_caps w"] obtain flags1 where
    lp: "apply_loop t (all c0) (Some (proc_caps w), w0) = (None, Some flags1, w0\<lparr>faults := None # rest\<rparr>)"
    by blast
  have "Capabilities_setProc (c0\<lparr>have_set := Some flags1\<rparr>, w0\<lparr>faults := None # rest\<rparr>) =
      (None, c0\<lparr>have_set := Some flags1\<rparr>,
       w0\<lparr>faults := rest, proc_caps := flags1, oslog := oslog w0 @ [OsSetProc]\<rparr>)"
    by (simp add: Capabilities_setProc_def cap_SetProc_def next_fault_def)
  with gp lp have "Capabilities_apply t (c, w) =
      (None, c0\<lparr>have_set := Some flags1\<rparr>,
       w0\<lparr>faults := rest, proc_caps := flags1, oslog := oslog w0 @ [OsSetProc]\<rparr>)"
    by (simp add: Capabilities_apply_def c0_def)
  then show ?thesis by simp
qed

lemma active_ring_after_apply:
  assumes "Capabilities_apply t (c, w) = (None, c1, w1)" "distinct (map fst (all c))"
  shows "active_ring_is t c1 w1"
  using apply_effect[OF assms] apply_frame[OF assms(1)]
  by (simp add: active_ring_is_def list_all_iff)

lemma active_ring_cong:
  "all c1 = all c \<Longrightarrow> proc_caps w1 = proc_caps w \<Longrightarrow> active_ring_is t c1 w1 = active_ring_is t c w"
  by (simp add: active_ring_is_def)

lemma entry_Membership:
  "distinct (map fst (all c)) \<Longrightarrow> (k, v) \<in> set (all c) \<Longrightarrow> Membership c k t = ring_flag v t"
  by (simp add: Membership_def)

lemma rings_differ:
  assumes d: "distinct (map fst (all c))" and k: "k \<in> fst ` set (all c)"
    and m: "Membership c k t \<noteq> Membership c k t'" and a: "active_ring_is t c w"
  shows "\<not> active_ring_is t' c w"
proof
  assume a': "active_ring_is t' c w"
  from k obtain v where kv: "(k, v) \<in> set (all c)" by auto
  from a kv have "(k \<in> proc_caps w Effective) = ring_flag v t"
    by (auto simp: active_ring_is_def list_all_iff)
  moreover from a' kv have "(k \<in> proc_caps w Effective) = ring_flag v t'"
    by (auto simp: active_ring_is_def list_all_iff)
  ultimately show False using m entry_Membership[OF d kv] by simp
qed

text \<open>The manager and the world that \<open>NewCapabilities(false)\<close> leaves on the example platform.\<close>

lemma example_start:
  "\<exists>c0 w0.
    NewCapabilities example_platform False (Capabilities_zero, example_world tunable []) = Returns (None, c0, w0) \<and>
    faults w0 = [] \<and> \<not> bypass c0 \<and> lock c0 = Some Unlocked \<and>
    distinct (map fst (all c0)) \<and> length (all c0) = 41 \<and> fst ` set (all c0) = {0..<41} \<and>
    (\<forall>k. Membership c0 k Privileged = (k < 41)) \<and> (\<forall>k. \<not> Membership c0 k Unprivileged) \<and>
    (\<forall>k. \<not> Membership c0 k Requested) \<and>
    (\<forall>k. Membership c0 k Required =
       (k \<in> {cap_IPC_LOCK, cap_SYS_RESOURCE} \<union>
          (if 2 < fst (getKernelPerfEventParanoidValue example_platform (example_world tunable []))
           then {cap_SYS_ADMIN} else {}) \<union> {cap_BPF, cap_PERFMON})) \<and>
    active_ring_is Unprivileged c0 w0"
proof -
  from NewCapabilities_succeeds[OF example_facts(3) example_facts(1), of Capabilities_zero tunable]
  obtain c0 w0 where
    init: "NewCapabilities example_platform False (Capabilities_zero, example_world tunable []) = Returns (None, c0, w0)"
    and f0: "faults w0 = []" by blast
  note p = NewCapabilities_post[OF init]
  from p have k0: "map fst (all c0) = [0..<41]" by (simp add: example_facts)
  then have d0: "distinct (map fst (all c0))" by simp
  from k0 have l0: "length (all c0) = 41" by (metis length_map length_upt diff_zero)
  from k0 have s0: "fst ` set (all c0) = {0..<41}" by (metis list.set_map set_upt)
  have bpf: "cap_BPF \<in> proc_caps (example_world tunable []) Permitted"
    by (simp add: example_world_def cap_BPF_def)
  from p bpf have req: "\<forall>k. Membership c0 k Required =
       (k \<in> {cap_IPC_LOCK, cap_SYS_RESOURCE} \<union>
          (if 2 < fst (getKernelPerfEventParanoidValue example_platform (example_world tunable []))
           then {cap_SYS_ADMIN} else {}) \<union> {cap_BPF, cap_PERFMON})"
    by simp
  from p have "\<not> bypass c0" "lock c0 = Some Unlocked" "\<forall>k. Membership c0 k Privileged = (k < 41)"
    "\<forall>k. \<not> Membership c0 k Unprivileged" "\<forall>k. \<not> Membership c0 k Requested"
    "active_ring_is Unprivileged c0 w0"
    by (simp_all add: example_facts)
  with init f0 d0 l0 s0 req show ?thesis by blast
qed

lemma restore_tail:
  assumes l1: "lock c1 = Some Locked"
  shows "restores_then_returns
           (case Capabilities_apply Unprivileged (c1, w2) of
              (Some e, c3, w3) \<Rightarrow> deferred_Unlock (Some e, c3, w3)
            | (None, c3, w3) \<Rightarrow> deferred_Unlock (errCb, c3, w3)) errCb c1 w2"
proof -
  obtain e3 c3 w3 where a3: "Capabilities_apply Unprivileged (c1, w2) = (e3, c3, w3)"
    by (cases "Capabilities_apply Unprivileged (c1, w2)")
  from apply_frame[OF a3] l1 have l3: "lock c3 = Some Locked" by simp
  from a3 l3 apply_log[OF a3] show ?thesis
    by (cases e3) (simp_all add: restores_then_returns_def unlock_held)
qed

lemma example_paranoid:
  "getKernelPerfEventParanoidValue example_platform (example_world (Some [CHR ''3'', CHR 0x0A]) sched) = (3, None)"
  "getKernelPerfEventParanoidValue example_platform (example_world (Some [CHR ''1'', CHR 0x0A]) sched) = (1, None)"
  "getKernelPerfEventParanoidValue example_platform (example_world (Some ''not a number'') sched) =
     (4, Some couldNotReadPerfEventParanoid)"
  "getKernelPerfEventParanoidValue example_platform (example_world None sched) =
     (4, Some couldNotReadPerfEventParanoid)"
  by (simp_all add: getKernelPerfEventParanoidValue_def example_world_def example_platform_def
        TrimSuffix_def suffix_def example_ParseInt_def digit_value_def)

subsection \<open>A failed apply, and the mutex held\<close>

lemma apply_failed_keeps:
  assumes "Capabilities_apply t (c, w) = (Some err, c1, w1)"
  shows "proc_caps w1 = proc_caps w"
proof -
  obtain e0 c0 w0 where gp: "Capabilities_getProc (c, w) = (e0, c0, w0)"
    by (cases "Capabilities_getProc (c, w)")
  note g = getProc_cases[OF gp]
  show ?thesis
  proof (cases e0)
    case (Some a)
    with assms gp have "w1 = w0" by (simp add: Capabilities_apply_def)
    with g show ?thesis by simp
  next
    case None
    obtain e2 h2 w2 where lp: "apply_loop t (all c0) (have_set c0, w0) = (e2, h2, w2)"
      by (cases "apply_loop t (all c0) (have_set c0, w0)")
    note l = apply_loop_frame[OF lp]
    show ?thesis
    proof (cases e2)
      case (Some a)
      with assms gp None lp have "w1 = w2" by (simp add: Capabilities_apply_def)
      with g l show ?thesis by simp
    next
      case n2: None
      with assms gp None lp have "Capabilities_setProc (c0\<lparr>have_set := h2\<rparr>, w2) = (Some err, c1, w1)"
        by (simp add: Capabilities_apply_def)
      from setProc_cases[OF this] g l show ?thesis by simp
    qed
  qed
qed

lemma update_keeps_flags:
  "map_of al k = Some m \<Longrightarrow> ring_flag m' r = ring_flag m r \<Longrightarrow>
     map (\<lambda>(k, v). (k, ring_flag v r)) (AList.update k m' al) = map (\<lambda>(k, v). (k, ring_flag v r)) al"
  by (induction al) (auto split: if_splits)

lemma set_keeps_ring:
  "Capabilities_set t vs c = Returns (e, c') \<Longrightarrow> r \<noteq> t \<Longrightarrow>
     map (\<lambda>(k, v). (k, ring_flag v r)) (all c') = map (\<lambda>(k, v). (k, ring_flag v r)) (all c)"
proof (induction vs arbitrary: c)
  case Nil
  then show ?case by simp
next
  case (Cons v vs)
  from Cons.prems(1) obtain m where m: "map_of (all c) v = Some m"
    and rest: "Capabilities_set t vs (c\<lparr>all := AList.update v (m(t \<mapsto> True)) (all c)\<rparr>) = Returns (e, c')"
    by (auto split: option.splits)
  from Cons.prems(2) have "ring_flag (m(t \<mapsto> True)) r = ring_flag m r" by (simp add: ring_flag_def)
  from update_keeps_flags[OF m this] Cons.IH[OF rest Cons.prems(2)] show ?case by simp
qed

lemma active_ring_by_flags:
  "active_ring_is r c w =
     list_all (\<lambda>(k, b). (k \<in> proc_caps w Effective) = b) (map (\<lambda>(k, v). (k, ring_flag v r)) (all c))"
  by (simp add: active_ring_is_def list_all_iff case_prod_unfold)

lemma active_ring_after_set:
  assumes "Capabilities_set t vs c = Returns (e, c')" "r \<noteq> t"
  shows "active_ring_is r c' w = active_ring_is r c w"
  using set_keeps_ring[OF assms] by (simp add: active_ring_by_flags)

lemma active_ring_lock: "active_ring_is r (c\<lparr>lock := l\<rparr>) w = active_ring_is r c w"
  by (simp add: active_ring_is_def)

lemma apply_held:
  "Capabilities_apply t (c, w) = (e, c1, w1) \<Longrightarrow>
     Capabilities_apply t (c\<lparr>lock := Some Locked\<rparr>, w) = (e, c1\<lparr>lock := Some Locked\<rparr>, w1)"
  by (simp add: apply_lock)

lemma release_held: "lock c = Some Unlocked \<Longrightarrow> (c\<lparr>lock := Some Locked\<rparr>)\<lparr>lock := Some Unlocked\<rparr> = c"
  by (cases c) simp

section \<open>The claims\<close>

text \<open>
  Claim C1 (restore before the callback's error). With bypass off and the mutex free, if
  the apply of the elevated ring succeeded (for \<open>Requested\<close>: after the staging
  \<open>set\<close>) and the callback then returned \<open>errCb\<close>, error or none, the method goes on to
  apply \<open>Unprivileged\<close> in the world the callback left: the next capability call in the
  log is the query of that apply. The method returns \<open>errCb\<close> when that apply succeeded
  and the error of that apply when it failed.
\<close>

theorem callback_error_returned_after_restore:
  assumes nb: "\<not> bypass c" and lk: "lock c = Some Unlocked" and cbr: "cb w1 = Returns (errCb, w2)"
  shows "(Capabilities_apply Privileged (c\<lparr>lock := Some Locked\<rparr>, w) = (None, c1, w1) \<longrightarrow>
            restores_then_returns (Capabilities_Privileged cb (c, w)) errCb c1 w2) \<and>
         (Capabilities_apply Required (c\<lparr>lock := Some Locked\<rparr>, w) = (None, c1, w1) \<longrightarrow>
            restores_then_returns (Capabilities_Required cb (c, w)) errCb c1 w2) \<and>
         (Capabilities_set Requested values (c\<lparr>lock := Some Locked\<rparr>) = Returns (None, cs) \<and>
          Capabilities_apply Requested (cs, w) = (None, ca, w1) \<longrightarrow>
            (\<exists>c1. Capabilities_unset Requested values ca = Returns (None, c1) \<and>
                  restores_then_returns (Capabilities_Requested cb values (c, w)) errCb c1 w2))"
proof (intro conjI impI)
  assume a1: "Capabilities_apply Privileged (c\<lparr>lock := Some Locked\<rparr>, w) = (None, c1, w1)"
  from apply_frame[OF a1] have l1: "lock c1 = Some Locked" by simp
  from nb lk a1 cbr restore_tail[OF l1, where ?w2.0 = w2 and errCb = errCb]
  show "restores_then_returns (Capabilities_Privileged cb (c, w)) errCb c1 w2"
    by (simp add: Capabilities_Privileged_def Mutex_Lock_def and_then_def)
next
  assume a1: "Capabilities_apply Required (c\<lparr>lock := Some Locked\<rparr>, w) = (None, c1, w1)"
  from apply_frame[OF a1] have l1: "lock c1 = Some Locked" by simp
  from nb lk a1 cbr restore_tail[OF l1, where ?w2.0 = w2 and errCb = errCb]
  show "restores_then_returns (Capabilities_Required cb (c, w)) errCb c1 w2"
    by (simp add: Capabilities_Required_def Mutex_Lock_def and_then_def)
next
  assume "Capabilities_set Requested values (c\<lparr>lock := Some Locked\<rparr>) = Returns (None, cs) \<and>
          Capabilities_apply Requested (cs, w) = (None, ca, w1)"
  then have s0: "Capabilities_set Requested values (c\<lparr>lock := Some Locked\<rparr>) = Returns (None, cs)"
    and a1: "Capabilities_apply Requested (cs, w) = (None, ca, w1)" by simp_all
  have "set values \<subseteq> fst ` set (all (c\<lparr>lock := Some Locked\<rparr>))"
    using s0 set_Panics[of "values" "c\<lparr>lock := Some Locked\<rparr>" Requested] by auto
  moreover from set_frame[OF s0] apply_frame[OF a1]
  have "map fst (all ca) = map fst (all (c\<lparr>lock := Some Locked\<rparr>))" and la: "lock ca = Some Locked"
    by simp_all
  then have "fst ` set (all ca) = fst ` set (all (c\<lparr>lock := Some Locked\<rparr>))" by (metis list.set_map)
  ultimately have "set values \<subseteq> fst ` set (all ca)" by simp
  from unset_Returns[OF this, of Requested] obtain c2 where
    u2: "Capabilities_unset Requested values ca = Returns (None, c2)" by blast
  from unset_frame[OF u2] la have l2: "lock c2 = Some Locked" by simp
  from nb lk s0 a1 u2 cbr restore_tail[OF l2, where ?w2.0 = w2 and errCb = errCb]
  have "restores_then_returns (Capabilities_Requested cb values (c, w)) errCb c2 w2"
    by (simp add: Capabilities_Requested_def Mutex_Lock_def and_then_def)
  with u2 show "\<exists>c1. Capabilities_unset Requested values ca = Returns (None, c1) \<and>
                  restores_then_returns (Capabilities_Requested cb values (c, w)) errCb c1 w2"
    by blast
qed

theorem callback_error_returned_after_restore_witness:
  "\<exists>c0 w0 c1 w1 cs ca wa c2.
     NewCapabilities example_platform False (Capabilities_zero, example_world None []) = Returns (None, c0, w0) \<and>
     \<not> bypass c0 \<and> lock c0 = Some Unlocked \<and>
     cb_fails w1 = Returns (Some (OtherError ''callback failed''), w1) \<and>
     Capabilities_apply Privileged (c0\<lparr>lock := Some Locked\<rparr>, w0\<lparr>faults := replicate 43 None @ [Some (Errno 1)]\<rparr>) =
       (None, c1, w1) \<and>
     restores_then_returns
       (Capabilities_Privileged cb_fails (c0, w0\<lparr>faults := replicate 43 None @ [Some (Errno 1)]\<rparr>))
       (Some (OtherError ''callback failed'')) c1 w1 \<and>
     fst (Capabilities_apply Unprivileged (c1, w1)) = Some (couldNotGetProc (Errno 1)) \<and>
     cb_fails wa = Returns (Some (OtherError ''callback failed''), wa) \<and>
     Capabilities_set Requested [cap_SYS_ADMIN] (c0\<lparr>lock := Some Locked\<rparr>) = Returns (None, cs) \<and>
     Capabilities_apply Requested (cs, w0) = (None, ca, wa) \<and>
     Capabilities_unset Requested [cap_SYS_ADMIN] ca = Returns (None, c2) \<and>
     restores_then_returns (Capabilities_Requested cb_fails [cap_SYS_ADMIN] (c0, w0))
       (Some (OtherError ''callback failed'')) c2 wa \<and>
     fst (Capabilities_apply Unprivileged (c2, wa)) = None"
proof -
  from example_start[of None] obtain c0 w0 where
    init: "NewCapabilities example_platform False (Capabilities_zero, example_world None []) = Returns (None, c0, w0)"
    and f0: "faults w0 = []" and nb: "\<not> bypass c0" and lk: "lock c0 = Some Unlocked"
    and len: "length (all c0) = 41" and keys: "fst ` set (all c0) = {0..<41}"
    by blast
  define ws where "ws = w0\<lparr>faults := replicate 43 None @ [Some (Errno 1)]\<rparr>"
  have "faults ws = replicate (length (all (c0\<lparr>lock := Some Locked\<rparr>)) + 2) None @ [Some (Errno 1)]"
    by (simp add: ws_def len)
  from apply_consumes[OF this, of Privileged] obtain c1 w1 where
    a1: "Capabilities_apply Privileged (c0\<lparr>lock := Some Locked\<rparr>, ws) = (None, c1, w1)"
    and f1: "faults w1 = [Some (Errno 1)]" by blast
  have cb1: "cb_fails w1 = Returns (Some (OtherError ''callback failed''), w1)"
    by (rule callbacks_keep_world)
  from callback_error_returned_after_restore[where cb = cb_fails and ?w1.0 = w1 and ?w2.0 = w1
      and w = ws and ?c1.0 = c1, OF nb lk cb1] a1
  have p1: "restores_then_returns (Capabilities_Privileged cb_fails (c0, ws))
       (Some (OtherError ''callback failed'')) c1 w1" by simp
  from apply_query_fails[OF f1, of Unprivileged c1]
  have r1: "fst (Capabilities_apply Unprivileged (c1, w1)) = Some (couldNotGetProc (Errno 1))" by simp
  from keys have "set [cap_SYS_ADMIN] \<subseteq> fst ` set (all (c0\<lparr>lock := Some Locked\<rparr>))"
    by (simp add: cap_SYS_ADMIN_def)
  from set_Returns[OF this, of Requested] obtain cs where
    s0: "Capabilities_set Requested [cap_SYS_ADMIN] (c0\<lparr>lock := Some Locked\<rparr>) = Returns (None, cs)" by blast
  from apply_succeeds[OF f0, of Requested cs] obtain ca wa where
    a2: "Capabilities_apply Requested (cs, w0) = (None, ca, wa)" and fa: "faults wa = []" by blast
  have cb2: "cb_fails wa = Returns (Some (OtherError ''callback failed''), wa)"
    by (rule callbacks_keep_world)
  from callback_error_returned_after_restore[where cb = cb_fails and ?w1.0 = wa and ?w2.0 = wa
      and w = w0 and cs = cs and ca = ca, OF nb lk cb2] s0 a2
  obtain c2 where u2: "Capabilities_unset Requested [cap_SYS_ADMIN] ca = Returns (None, c2)"
    and p2: "restores_then_returns (Capabilities_Requested cb_fails [cap_SYS_ADMIN] (c0, w0))
       (Some (OtherError ''callback failed'')) c2 wa" by blast
  from apply_succeeds[OF fa, of Unprivileged c2] obtain c3 w3 where
    a3: "Capabilities_apply Unprivileged (c2, wa) = (None, c3, w3)" by blast
  then have a3': "fst (Capabilities_apply Unprivileged (c2, wa)) = None" by simp
  from init nb lk cb1 a1 p1 r1 cb2 s0 a2 u2 p2 a3' show ?thesis
    unfolding ws_def by blast
qed

text \<open>
  Claim C2, as amended (bootstrap with a paranoia level above 2). When
  \<open>NewCapabilities(false)\<close> succeeds and the tunable is above 2, the bootstrap requires
  \<open>cap.SYS_ADMIN\<close> and goes on: it still reads the permitted set, and ring \<open>Required\<close>
  ends as \<open>IPC_LOCK\<close>, \<open>SYS_RESOURCE\<close>, \<open>SYS_ADMIN\<close>, together with \<open>BPF\<close> and
  \<open>PERFMON\<close> exactly when \<open>cap.BPF\<close> is permitted.
\<close>

theorem bootstrap_goes_on_after_SYS_ADMIN:
  assumes init: "NewCapabilities pf False (Caps, w0) = Returns (None, c, w)"
    and high: "2 < fst (getKernelPerfEventParanoidValue pf w0)"
  shows "\<forall>k. Membership c k Required =
           (k \<in> {cap_IPC_LOCK, cap_SYS_RESOURCE, cap_SYS_ADMIN} \<union>
                 (if cap_BPF \<in> proc_caps w0 Permitted then {cap_BPF, cap_PERFMON} else {}))"
  using NewCapabilities_post[OF init] high by auto

theorem bootstrap_goes_on_after_SYS_ADMIN_witness:
  "\<exists>c w c' w'.
     NewCapabilities example_platform False
       (Capabilities_zero, example_world (Some [CHR ''3'', CHR 0x0A]) []) = Returns (None, c, w) \<and>
     2 < fst (getKernelPerfEventParanoidValue example_platform (example_world (Some [CHR ''3'', CHR 0x0A]) [])) \<and>
     Membership c cap_SYS_ADMIN Required \<and> Membership c cap_BPF Required \<and>
     Membership c cap_PERFMON Required \<and> \<not> Membership c 0 Required \<and>
     NewCapabilities example_platform False
       (Capabilities_zero,
        (example_world (Some [CHR ''3'', CHR 0x0A]) [])\<lparr>proc_caps := (\<lambda>f. {0..<38})\<rparr>) = Returns (None, c', w') \<and>
     Membership c' cap_SYS_ADMIN Required \<and> \<not> Membership c' cap_BPF Required \<and>
     \<not> Membership c' cap_PERFMON Required"
proof -
  define w0 where "w0 = example_world (Some [CHR ''3'', CHR 0x0A]) []"
  define w0' where "w0' = w0\<lparr>proc_caps := (\<lambda>f. {0..<38})\<rparr>"
  have hi: "2 < fst (getKernelPerfEventParanoidValue example_platform w0)"
    by (simp add: w0_def example_paranoid)
  have "perf_event_paranoid w0' = perf_event_paranoid w0" by (simp add: w0'_def)
  from paranoid_depends[OF this, of example_platform] hi
  have hi': "2 < fst (getKernelPerfEventParanoidValue example_platform w0')" by simp
  have "faults w0 = []" by (simp add: w0_def example_facts)
  from NewCapabilities_succeeds[OF this example_facts(1), of Capabilities_zero] obtain c w where
    init: "NewCapabilities example_platform False (Capabilities_zero, w0) = Returns (None, c, w)" by blast
  have "faults w0' = []" by (simp add: w0'_def w0_def example_world_def)
  from NewCapabilities_succeeds[OF this example_facts(1), of Capabilities_zero] obtain c' w' where
    init': "NewCapabilities example_platform False (Capabilities_zero, w0') = Returns (None, c', w')" by blast
  have bpf: "cap_BPF \<in> proc_caps w0 Permitted" "cap_BPF \<notin> proc_caps w0' Permitted"
    by (simp_all add: w0_def w0'_def example_world_def cap_BPF_def)
  from bootstrap_goes_on_after_SYS_ADMIN[OF init hi] bpf
  have m: "Membership c cap_SYS_ADMIN Required \<and> Membership c cap_BPF Required \<and>
     Membership c cap_PERFMON Required \<and> \<not> Membership c 0 Required"
    by (simp add: cap_IPC_LOCK_def cap_SYS_RESOURCE_def cap_SYS_ADMIN_def cap_BPF_def cap_PERFMON_def)
  from bootstrap_goes_on_after_SYS_ADMIN[OF init' hi'] bpf
  have m': "Membership c' cap_SYS_ADMIN Required \<and> \<not> Membership c' cap_BPF Required \<and>
     \<not> Membership c' cap_PERFMON Required"
    by (simp add: cap_IPC_LOCK_def cap_SYS_RESOURCE_def cap_SYS_ADMIN_def cap_BPF_def cap_PERFMON_def)
  from init hi m init' m' show ?thesis unfolding w0_def w0'_def by blast
qed

text \<open>
  The claim as it was stated fails: with the tunable at 3 and \<open>cap.BPF\<close> permitted, the
  bootstrap does not stop after \<open>cap.SYS_ADMIN\<close>; \<open>BPF\<close> and \<open>PERFMON\<close> are required
  as well.
\<close>

theorem bootstrap_stops_counterexample:
  "fst (getKernelPerfEventParanoidValue example_platform (example_world (Some [CHR ''3'', CHR 0x0A]) [])) = 3 \<and>
   (case returned (NewCapabilities example_platform False
                     (Capabilities_zero, example_world (Some [CHR ''3'', CHR 0x0A]) [])) of
      None \<Rightarrow> False
    | Some (e, c, w) \<Rightarrow>
        e = None \<and> Membership c cap_SYS_ADMIN Required \<and> Membership c cap_BPF Required \<and>
        Membership c cap_PERFMON Required)"
proof -
  from example_start[of "Some [CHR ''3'', CHR 0x0A]"] obtain c w where
    init: "NewCapabilities example_platform False
       (Capabilities_zero, example_world (Some [CHR ''3'', CHR 0x0A]) []) = Returns (None, c, w)"
    and req: "\<forall>k. Membership c k Required =
       (k \<in> {cap_IPC_LOCK, cap_SYS_RESOURCE} \<union>
          (if 2 < fst (getKernelPerfEventParanoidValue example_platform
                         (example_world (Some [CHR ''3'', CHR 0x0A]) []))
           then {cap_SYS_ADMIN} else {}) \<union> {cap_BPF, cap_PERFMON})"
    by blast
  from req have "Membership c cap_SYS_ADMIN Required \<and> Membership c cap_BPF Required \<and>
        Membership c cap_PERFMON Required"
    by (simp add: example_paranoid)
  with init show ?thesis by (simp add: returned_def example_paranoid)
qed

text \<open>
  Claim C3 fails on the code: no statement ever sets \<open>c.initialized\<close>. On the example
  platform, after \<open>NewCapabilities(false)\<close> and a \<open>Require\<close> of capability 0, a second
  \<open>initialize(false)\<close> on the same manager returns no error, and capability 0 is no longer
  in ring \<open>Required\<close>: the table was built anew. A second \<open>NewCapabilities(false)\<close> does
  the same.
\<close>

theorem second_initialize_succeeds_and_rebuilds:
  "(case returned (NewCapabilities example_platform False (Capabilities_zero, example_world None [])) of
      None \<Rightarrow> False
    | Some (e0, c0, w0) \<Rightarrow>
        e0 = None \<and>
        (case returned (Capabilities_Require [0] c0) of
           None \<Rightarrow> False
         | Some (e1, c1) \<Rightarrow>
             e1 = None \<and> Membership c1 0 Required \<and>
             (case returned (Capabilities_initialize example_platform False (c1, w0)) of
                None \<Rightarrow> False
              | Some (e2, c2, w2) \<Rightarrow> e2 = None \<and> \<not> Membership c2 0 Required) \<and>
             (case returned (NewCapabilities example_platform False (c1, w0)) of
                None \<Rightarrow> False
              | Some (e3, c3, w3) \<Rightarrow> e3 = None \<and> \<not> Membership c3 0 Required)))"
proof -
  from example_start[of None] obtain c0 w0 where
    init: "NewCapabilities example_platform False (Capabilities_zero, example_world None []) = Returns (None, c0, w0)"
    and f0: "faults w0 = []" and nb: "\<not> bypass c0" and lk: "lock c0 = Some Unlocked"
    and keys: "fst ` set (all c0) = {0..<41}"
    by blast
  from NewCapabilities_post[OF init] have ni0: "\<not> initialized c0" by simp
  from keys have "set [0] \<subseteq> fst ` set (all c0)" by simp
  from Require_succeeds[OF nb lk this] obtain c1 where
    r1: "Capabilities_Require [0] c0 = Returns (None, c1)" by blast
  note s1 = Require_step[OF nb lk r1]
  from s1 ni0 have ni1: "\<not> initialized c1" and nb1: "\<not> bypass c1" and m1: "Membership c1 0 Required"
    by simp_all
  from initialize_succeeds[OF ni1 nb1 f0 example_facts(1)] obtain c2 w2 where
    r2: "Capabilities_initialize example_platform False (c1, w0) = Returns (None, c2, w2)" by blast
  from initialize_post[OF ni1 nb1 r2] have m2: "\<not> Membership c2 0 Required"
    by (simp add: cap_IPC_LOCK_def cap_SYS_RESOURCE_def cap_SYS_ADMIN_def cap_BPF_def cap_PERFMON_def)
  from NewCapabilities_succeeds[OF f0 example_facts(1), of c1] obtain c3 w3 where
    r3: "NewCapabilities example_platform False (c1, w0) = Returns (None, c3, w3)" by blast
  from NewCapabilities_post[OF r3] have m3: "\<not> Membership c3 0 Required"
    by (simp add: cap_IPC_LOCK_def cap_SYS_RESOURCE_def cap_SYS_ADMIN_def cap_BPF_def cap_PERFMON_def)
  from init r1 m1 r2 m2 r3 m3 show ?thesis by (simp add: returned_def)
qed

text \<open>
  Claim C4 fails on the code. On the example platform, a \<open>Requested\<close> call for
  \<open>cap.SYS_ADMIN\<close> whose first capability query fails returns the error of
  \<open>getProc\<close>, and \<open>cap.SYS_ADMIN\<close> is a member of ring \<open>Requested\<close> afterwards though it
  was not before: \<open>apply(Requested)\<close> returns before \<open>unset\<close> is reached.
\<close>

theorem Requested_left_staged_when_apply_fails:
  "(case returned (NewCapabilities example_platform False (Capabilities_zero, example_world None [])) of
      None \<Rightarrow> False
    | Some (e0, c0, w0) \<Rightarrow>
        e0 = None \<and> \<not> Membership c0 cap_SYS_ADMIN Requested \<and>
        (case returned (Capabilities_Requested cb_ok [cap_SYS_ADMIN]
                          (c0, w0\<lparr>faults := [Some (Errno 1)]\<rparr>)) of
           None \<Rightarrow> False
         | Some (e, c, w) \<Rightarrow>
             e = Some (couldNotGetProc (Errno 1)) \<and> Membership c cap_SYS_ADMIN Requested))"
proof -
  from example_start[of None] obtain c0 w0 where
    init: "NewCapabilities example_platform False (Capabilities_zero, example_world None []) = Returns (None, c0, w0)"
    and nb: "\<not> bypass c0" and lk: "lock c0 = Some Unlocked"
    and keys: "fst ` set (all c0) = {0..<41}"
    and mr: "\<forall>k. \<not> Membership c0 k Requested"
    by blast
  from keys have "set [cap_SYS_ADMIN] \<subseteq> fst ` set (all c0)" by (simp add: cap_SYS_ADMIN_def)
  from set_Returns[OF this, of Requested] obtain cs where
    s0: "Capabilities_set Requested [cap_SYS_ADMIN] c0 = Returns (None, cs)" by blast
  from set_Membership[OF s0, of cap_SYS_ADMIN Requested] have ms: "Membership cs cap_SYS_ADMIN Requested"
    by simp
  define ws where "ws = w0\<lparr>faults := [Some (Errno 1)]\<rparr>"
  define c where "c = cs\<lparr>have_set := None\<rparr>"
  define w where "w = ws\<lparr>faults := [], oslog := oslog ws @ [OsGetPID]\<rparr>"
  have "faults ws = [Some (Errno 1)]" by (simp add: ws_def)
  from apply_query_fails[OF this, of Requested cs]
  have a1: "Capabilities_apply Requested (cs, ws) = (Some (couldNotGetProc (Errno 1)), c, w)"
    by (simp add: c_def w_def)
  from s0 a1 have run: "Capabilities_Requested cb_ok [cap_SYS_ADMIN] (c0, ws) =
      Returns (Some (couldNotGetProc (Errno 1)), c, w)"
    by (simp add: Requested_eq[OF nb lk])
  have "Membership c cap_SYS_ADMIN Requested"
    using ms Membership_cong[of c cs] by (simp add: c_def)
  with init mr run show ?thesis by (simp add: returned_def ws_def)
qed

text \<open>
  Claim C5, as amended (the ring after a ring method). With bypass off, whenever
  \<open>Privileged\<close>, \<open>Required\<close> or \<open>Requested\<close> returns, one of three things has
  happened. The apply of the elevated ring failed (for \<open>Requested\<close>: after the staging
  \<open>set\<close>): the method returns that error, nothing was committed, the capability state
  of the process is what it was when the call began, and ring \<open>Unprivileged\<close> is active
  exactly if it was then. Or that apply succeeded, the callback ran and returned, and the
  apply of \<open>Unprivileged\<close> that follows failed: the method returns that error. Or the
  apply of \<open>Unprivileged\<close> succeeded: the method returns what the callback returned,
  error or none, and the active ring is \<open>Unprivileged\<close>. So the active ring is
  \<open>Unprivileged\<close> on return unless the restoring apply failed, given that it was
  \<open>Unprivileged\<close> when the call began.
\<close>

theorem ring_restored_unless_restore_failed:
  assumes nb: "\<not> bypass c" and d: "distinct (map fst (all c))"
  shows
    "(Capabilities_Privileged cb (c, w) = Returns (e, c', w') \<longrightarrow>
        (case Capabilities_apply Privileged (c\<lparr>lock := Some Locked\<rparr>, w) of
           (Some err, c1, w1) \<Rightarrow>
             (e, c', w') = (Some err, c1\<lparr>lock := Some Unlocked\<rparr>, w1) \<and>
             proc_caps w' = proc_caps w \<and>
             active_ring_is Unprivileged c' w' = active_ring_is Unprivileged c w
         | (None, c1, w1) \<Rightarrow>
             (\<exists>errCb w2. cb w1 = Returns (errCb, w2) \<and>
                (case Capabilities_apply Unprivileged (c1, w2) of
                   (Some err, c3, w3) \<Rightarrow> (e, c', w') = (Some err, c3\<lparr>lock := Some Unlocked\<rparr>, w3)
                 | (None, c3, w3) \<Rightarrow>
                     (e, c', w') = (errCb, c3\<lparr>lock := Some Unlocked\<rparr>, w3) \<and>
                     active_ring_is Unprivileged c' w')))) \<and>
     (Capabilities_Required cb (c, w) = Returns (e, c', w') \<longrightarrow>
        (case Capabilities_apply Required (c\<lparr>lock := Some Locked\<rparr>, w) of
           (Some err, c1, w1) \<Rightarrow>
             (e, c', w') = (Some err, c1\<lparr>lock := Some Unlocked\<rparr>, w1) \<and>
             proc_caps w' = proc_caps w \<and>
             active_ring_is Unprivileged c' w' = active_ring_is Unprivileged c w
         | (None, c1, w1) \<Rightarrow>
             (\<exists>errCb w2. cb w1 = Returns (errCb, w2) \<and>
                (case Capabilities_apply Unprivileged (c1, w2) of
                   (Some err, c3, w3) \<Rightarrow> (e, c', w') = (Some err, c3\<lparr>lock := Some Unlocked\<rparr>, w3)
                 | (None, c3, w3) \<Rightarrow>
                     (e, c', w') = (errCb, c3\<lparr>lock := Some Unlocked\<rparr>, w3) \<and>
                     active_ring_is Unprivileged c' w')))) \<and>
     (Capabilities_Requested cb values (c, w) = Returns (e, c', w') \<longrightarrow>
        (\<exists>cs. Capabilities_set Requested values (c\<lparr>lock := Some Locked\<rparr>) = Returns (None, cs) \<and>
           (case Capabilities_apply Requested (cs, w) of
              (Some err, c1, w1) \<Rightarrow>
                (e, c', w') = (Some err, c1\<lparr>lock := Some Unlocked\<rparr>, w1) \<and>
                proc_caps w' = proc_caps w \<and>
                active_ring_is Unprivileged c' w' = active_ring_is Unprivileged c w
            | (None, c1, w1) \<Rightarrow>
                (\<exists>c2 errCb w2.
                   Capabilities_unset Requested values c1 = Returns (None, c2) \<and>
                   cb w1 = Returns (errCb, w2) \<and>
                   (case Capabilities_apply Unprivileged (c2, w2) of
                      (Some err, c3, w3) \<Rightarrow> (e, c', w') = (Some err, c3\<lparr>lock := Some Unlocked\<rparr>, w3)
                    | (None, c3, w3) \<Rightarrow>
                        (e, c', w') = (errCb, c3\<lparr>lock := Some Unlocked\<rparr>, w3) \<and>
                        active_ring_is Unprivileged c' w')))))"
proof (intro conjI impI)
  assume r: "Capabilities_Privileged cb (c, w) = Returns (e, c', w')"
  note lk = Privileged_lock[OF nb r]
  from nb r show "case Capabilities_apply Privileged (c\<lparr>lock := Some Locked\<rparr>, w) of
           (Some err, c1, w1) \<Rightarrow>
             (e, c', w') = (Some err, c1\<lparr>lock := Some Unlocked\<rparr>, w1) \<and>
             proc_caps w' = proc_caps w \<and>
             active_ring_is Unprivileged c' w' = active_ring_is Unprivileged c w
         | (None, c1, w1) \<Rightarrow>
             (\<exists>errCb w2. cb w1 = Returns (errCb, w2) \<and>
                (case Capabilities_apply Unprivileged (c1, w2) of
                   (Some err, c3, w3) \<Rightarrow> (e, c', w') = (Some err, c3\<lparr>lock := Some Unlocked\<rparr>, w3)
                 | (None, c3, w3) \<Rightarrow>
                     (e, c', w') = (errCb, c3\<lparr>lock := Some Unlocked\<rparr>, w3) \<and>
                     active_ring_is Unprivileged c' w'))"
  proof (cases rule: Privileged_Returns)
    case (elevate_failed err)
    note f = apply_frame[OF elevate_failed(1)]
    from f lk have rl: "(c'\<lparr>lock := Some Locked\<rparr>)\<lparr>lock := Some Unlocked\<rparr> = c'"
      by (simp add: release_held)
    from f have "active_ring_is Unprivileged c' w' = active_ring_is Unprivileged c w"
      using apply_failed_keeps[OF elevate_failed(1)] by (simp add: active_ring_is_def)
    with apply_held[OF elevate_failed(1)] elevate_failed(2) rl apply_failed_keeps[OF elevate_failed(1)]
    show ?thesis by simp
  next
    case (restored c1 w1 errCb w2 e3)
    from apply_frame[OF restored(1)] d have d1: "distinct (map fst (all c1))" by simp
    from apply_frame[OF restored(1)] apply_frame[OF restored(3)] lk
    have rl: "(c'\<lparr>lock := Some Locked\<rparr>)\<lparr>lock := Some Unlocked\<rparr> = c'"
      by (simp add: release_held)
    note h1 = apply_held[OF restored(1)]
    have h3: "Capabilities_apply Unprivileged (c1\<lparr>lock := Some Locked\<rparr>, w2) =
        (e3, c'\<lparr>lock := Some Locked\<rparr>, w')"
      using restored(3) by (simp add: apply_lock)
    show ?thesis
    proof (cases e3)
      case None
      with restored(3) active_ring_after_apply[OF _ d1] have "active_ring_is Unprivileged c' w'" by simp
      with h1 h3 restored(2,4) None rl show ?thesis by simp
    next
      case (Some err)
      with h1 h3 restored(2,4) rl show ?thesis by simp
    qed
  qed
next
  assume r: "Capabilities_Required cb (c, w) = Returns (e, c', w')"
  note lk = Required_lock[OF nb r]
  from nb r show "case Capabilities_apply Required (c\<lparr>lock := Some Locked\<rparr>, w) of
           (Some err, c1, w1) \<Rightarrow>
             (e, c', w') = (Some err, c1\<lparr>lock := Some Unlocked\<rparr>, w1) \<and>
             proc_caps w' = proc_caps w \<and>
             active_ring_is Unprivileged c' w' = active_ring_is Unprivileged c w
         | (None, c1, w1) \<Rightarrow>
             (\<exists>errCb w2. cb w1 = Returns (errCb, w2) \<and>
                (case Capabilities_apply Unprivileged (c1, w2) of
                   (Some err, c3, w3) \<Rightarrow> (e, c', w') = (Some err, c3\<lparr>lock := Some Unlocked\<rparr>, w3)
                 | (None, c3, w3) \<Rightarrow>
                     (e, c', w') = (errCb, c3\<lparr>lock := Some Unlocked\<rparr>, w3) \<and>
                     active_ring_is Unprivileged c' w'))"
  proof (cases rule: Required_Returns)
    case (elevate_failed err)
    note f = apply_frame[OF elevate_failed(1)]
    from f lk have rl: "(c'\<lparr>lock := Some Locked\<rparr>)\<lparr>lock := Some Unlocked\<rparr> = c'"
      by (simp add: release_held)
    from f have "active_ring_is Unprivileged c' w' = active_ring_is Unprivileged c w"
      using apply_failed_keeps[OF elevate_failed(1)] by (simp add: active_ring_is_def)
    with apply_held[OF elevate_failed(1)] elevate_failed(2) rl apply_failed_keeps[OF elevate_failed(1)]
    show ?thesis by simp
  next
    case (restored c1 w1 errCb w2 e3)
    from apply_frame[OF restored(1)] d have d1: "distinct (map fst (all c1))" by simp
    from apply_frame[OF restored(1)] apply_frame[OF restored(3)] lk
    have rl: "(c'\<lparr>lock := Some Locked\<rparr>)\<lparr>lock := Some Unlocked\<rparr> = c'"
      by (simp add: release_held)
    note h1 = apply_held[OF restored(1)]
    have h3: "Capabilities_apply Unprivileged (c1\<lparr>lock := Some Locked\<rparr>, w2) =
        (e3, c'\<lparr>lock := Some Locked\<rparr>, w')"
      using restored(3) by (simp add: apply_lock)
    show ?thesis
    proof (cases e3)
      case None
      with restored(3) active_ring_after_apply[OF _ d1] have "active_ring_is Unprivileged c' w'" by simp
      with h1 h3 restored(2,4) None rl show ?thesis by simp
    next
      case (Some err)
      with h1 h3 restored(2,4) rl show ?thesis by simp
    qed
  qed
next
  assume r: "Capabilities_Requested cb values (c, w) = Returns (e, c', w')"
  note lk = Requested_lock[OF nb r]
  from nb r show "\<exists>cs. Capabilities_set Requested values (c\<lparr>lock := Some Locked\<rparr>) = Returns (None, cs) \<and>
           (case Capabilities_apply Requested (cs, w) of
              (Some err, c1, w1) \<Rightarrow>
                (e, c', w') = (Some err, c1\<lparr>lock := Some Unlocked\<rparr>, w1) \<and>
                proc_caps w' = proc_caps w \<and>
                active_ring_is Unprivileged c' w' = active_ring_is Unprivileged c w
            | (None, c1, w1) \<Rightarrow>
                (\<exists>c2 errCb w2.
                   Capabilities_unset Requested values c1 = Returns (None, c2) \<and>
                   cb w1 = Returns (errCb, w2) \<and>
                   (case Capabilities_apply Unprivileged (c2, w2) of
                      (Some err, c3, w3) \<Rightarrow> (e, c', w') = (Some err, c3\<lparr>lock := Some Unlocked\<rparr>, w3)
                    | (None, c3, w3) \<Rightarrow>
                        (e, c', w') = (errCb, c3\<lparr>lock := Some Unlocked\<rparr>, w3) \<and>
                        active_ring_is Unprivileged c' w')))"
  proof (cases rule: Requested_Returns)
    case (elevate_failed c0 err)
    note f0 = set_frame[OF elevate_failed(1)]
    note f = apply_frame[OF elevate_failed(2)]
    from f f0 lk have rl: "(c'\<lparr>lock := Some Locked\<rparr>)\<lparr>lock := Some Unlocked\<rparr> = c'"
      by (simp add: release_held)
    have "active_ring_is Unprivileged c' w' = active_ring_is Unprivileged c0 w"
      using f apply_failed_keeps[OF elevate_failed(2)] by (simp add: active_ring_is_def)
    also have "\<dots> = active_ring_is Unprivileged c w"
      by (rule active_ring_after_set[OF elevate_failed(1)]) simp
    finally have act: "active_ring_is Unprivileged c' w' = active_ring_is Unprivileged c w" .
    have s: "Capabilities_set Requested values (c\<lparr>lock := Some Locked\<rparr>) =
        Returns (None, c0\<lparr>lock := Some Locked\<rparr>)"
      using elevate_failed(1) by (simp add: set_lock)
    have "case Capabilities_apply Requested (c0\<lparr>lock := Some Locked\<rparr>, w) of
              (Some err, c1, w1) \<Rightarrow>
                (e, c', w') = (Some err, c1\<lparr>lock := Some Unlocked\<rparr>, w1) \<and>
                proc_caps w' = proc_caps w \<and>
                active_ring_is Unprivileged c' w' = active_ring_is Unprivileged c w
            | (None, c1, w1) \<Rightarrow>
                (\<exists>c2 errCb w2.
                   Capabilities_unset Requested values c1 = Returns (None, c2) \<and>
                   cb w1 = Returns (errCb, w2) \<and>
                   (case Capabilities_apply Unprivileged (c2, w2) of
                      (Some err, c3, w3) \<Rightarrow> (e, c', w') = (Some err, c3\<lparr>lock := Some Unlocked\<rparr>, w3)
                    | (None, c3, w3) \<Rightarrow>
                        (e, c', w') = (errCb, c3\<lparr>lock := Some Unlocked\<rparr>, w3) \<and>
                        active_ring_is Unprivileged c' w'))"
      using apply_held[OF elevate_failed(2)] elevate_failed(3) rl act
        apply_failed_keeps[OF elevate_failed(2)] by simp
    then show ?thesis
      by (intro exI[of _ "c0\<lparr>lock := Some Locked\<rparr>"] conjI s)
  next
    case (restored c0 c1 w1 c2 errCb w2 e3)
    from set_frame[OF restored(1)] apply_frame[OF restored(2)] unset_frame[OF restored(3)] d
    have d2: "distinct (map fst (all c2))" by simp
    from set_frame[OF restored(1)] apply_frame[OF restored(2)] unset_frame[OF restored(3)]
      apply_frame[OF restored(5)] lk
    have rl: "(c'\<lparr>lock := Some Locked\<rparr>)\<lparr>lock := Some Unlocked\<rparr> = c'"
      by (simp add: release_held)
    note h1 = apply_held[OF restored(2)]
    have h3: "Capabilities_apply Unprivileged (c2\<lparr>lock := Some Locked\<rparr>, w2) =
        (e3, c'\<lparr>lock := Some Locked\<rparr>, w')"
      using restored(5) by (simp add: apply_lock)
    have s: "Capabilities_set Requested values (c\<lparr>lock := Some Locked\<rparr>) =
        Returns (None, c0\<lparr>lock := Some Locked\<rparr>)"
      using restored(1) by (simp add: set_lock)
    have u: "Capabilities_unset Requested values (c1\<lparr>lock := Some Locked\<rparr>) =
        Returns (None, c2\<lparr>lock := Some Locked\<rparr>)"
      using restored(3) by (simp add: unset_lock)
    have act: "e3 = None \<Longrightarrow> active_ring_is Unprivileged c' w'"
      using restored(5) active_ring_after_apply[OF _ d2] by simp
    have "case Capabilities_apply Requested (c0\<lparr>lock := Some Locked\<rparr>, w) of
              (Some err, c1, w1) \<Rightarrow>
                (e, c', w') = (Some err, c1\<lparr>lock := Some Unlocked\<rparr>, w1) \<and>
                proc_caps w' = proc_caps w \<and>
                active_ring_is Unprivileged c' w' = active_ring_is Unprivileged c w
            | (None, c1, w1) \<Rightarrow>
                (\<exists>c2 errCb w2.
                   Capabilities_unset Requested values c1 = Returns (None, c2) \<and>
                   cb w1 = Returns (errCb, w2) \<and>
                   (case Capabilities_apply Unprivileged (c2, w2) of
                      (Some err, c3, w3) \<Rightarrow> (e, c', w') = (Some err, c3\<lparr>lock := Some Unlocked\<rparr>, w3)
                    | (None, c3, w3) \<Rightarrow>
                        (e, c', w') = (errCb, c3\<lparr>lock := Some Unlocked\<rparr>, w3) \<and>
                        active_ring_is Unprivileged c' w'))"
      using h1 h3 restored(4,6) u rl act by (cases e3) simp_all
    then show ?thesis
      by (intro exI[of _ "c0\<lparr>lock := Some Locked\<rparr>"] conjI s)
  qed
qed

theorem ring_restored_unless_restore_failed_witness:
  "\<exists>c0 w0 c1 w1 c2 w2 c3 w3 c4 w4.
     NewCapabilities example_platform False (Capabilities_zero, example_world None []) = Returns (None, c0, w0) \<and>
     \<not> bypass c0 \<and> distinct (map fst (all c0)) \<and> active_ring_is Unprivileged c0 w0 \<and>
     Capabilities_Privileged cb_fails (c0, w0) = Returns (Some (OtherError ''callback failed''), c1, w1) \<and>
     active_ring_is Unprivileged c1 w1 \<and>
     Capabilities_Required cb_ok (c0, w0) = Returns (None, c2, w2) \<and>
     active_ring_is Unprivileged c2 w2 \<and>
     Capabilities_Requested cb_fails [cap_SYS_ADMIN] (c0, w0) = Returns (Some (OtherError ''callback failed''), c3, w3) \<and>
     active_ring_is Unprivileged c3 w3 \<and>
     Capabilities_Required cb_ok (c0, w0\<lparr>faults := [Some (Errno 1)]\<rparr>) =
       Returns (Some (couldNotGetProc (Errno 1)), c4, w4) \<and>
     proc_caps w4 = proc_caps w0 \<and> active_ring_is Unprivileged c4 w4"
proof -
  from example_start[of None] obtain c0 w0 where
    init: "NewCapabilities example_platform False (Capabilities_zero, example_world None []) = Returns (None, c0, w0)"
    and f0: "faults w0 = []" and nb: "\<not> bypass c0" and lk: "lock c0 = Some Unlocked"
    and d: "distinct (map fst (all c0))" and keys: "fst ` set (all c0) = {0..<41}"
    and act0: "active_ring_is Unprivileged c0 w0"
    by blast
  define c0L where "c0L = c0\<lparr>lock := Some Locked\<rparr>"
  \<comment> \<open>Privileged, the callback failing\<close>
  from Privileged_succeeds[OF nb lk f0, of cb_fails "Some (OtherError ''callback failed'')"]
  obtain c1 w1 where
    r1: "Capabilities_Privileged cb_fails (c0, w0) = Returns (Some (OtherError ''callback failed''), c1, w1)"
    by (auto simp: callbacks_keep_world)
  from apply_succeeds[OF f0, of Privileged c0L] obtain p1 v1 where
    e1: "Capabilities_apply Privileged (c0L, w0) = (None, p1, v1)" and g1: "faults v1 = []" by blast
  from apply_succeeds[OF g1, of Unprivileged p1] obtain p2 v2 where
    e2: "Capabilities_apply Unprivileged (p1, v1) = (None, p2, v2)" by blast
  from ring_restored_unless_restore_failed[where cb = cb_fails and w = w0
      and e = "Some (OtherError ''callback failed'')" and c' = c1 and w' = w1, OF nb d, THEN conjunct1] r1
    e1[unfolded c0L_def] e2
  have a1: "active_ring_is Unprivileged c1 w1" by (auto simp: callbacks_keep_world)
  \<comment> \<open>Required, the callback succeeding\<close>
  from Required_succeeds[OF nb lk f0, of cb_ok None]
  obtain c2 w2 where r2: "Capabilities_Required cb_ok (c0, w0) = Returns (None, c2, w2)"
    by (auto simp: callbacks_keep_world)
  from apply_succeeds[OF f0, of Required c0L] obtain p3 v3 where
    e3: "Capabilities_apply Required (c0L, w0) = (None, p3, v3)" and g3: "faults v3 = []" by blast
  from apply_succeeds[OF g3, of Unprivileged p3] obtain p4 v4 where
    e4: "Capabilities_apply Unprivileged (p3, v3) = (None, p4, v4)" by blast
  from ring_restored_unless_restore_failed[where cb = cb_ok and w = w0 and e = None and c' = c2
      and w' = w2, OF nb d, THEN conjunct2, THEN conjunct1] r2 e3[unfolded c0L_def] e4
  have a2: "active_ring_is Unprivileged c2 w2" by (auto simp: callbacks_keep_world)
  \<comment> \<open>Requested, the callback failing\<close>
  from keys have sub: "set [cap_SYS_ADMIN] \<subseteq> fst ` set (all c0)" by (simp add: cap_SYS_ADMIN_def)
  from Requested_succeeds[OF nb lk f0, of cb_fails "Some (OtherError ''callback failed'')" "[cap_SYS_ADMIN]"] sub
  obtain c3 w3 where
    r3: "Capabilities_Requested cb_fails [cap_SYS_ADMIN] (c0, w0) = Returns (Some (OtherError ''callback failed''), c3, w3)"
    by (auto simp: callbacks_keep_world)
  from ring_restored_unless_restore_failed[of c0 cb_fails w0 "Some (OtherError ''callback failed'')"
      c3 w3 "[cap_SYS_ADMIN]", OF nb d, THEN conjunct2, THEN conjunct2] r3
  obtain cs where
    s5: "Capabilities_set Requested [cap_SYS_ADMIN] (c0\<lparr>lock := Some Locked\<rparr>) = Returns (None, cs)"
    and t5: "case Capabilities_apply Requested (cs, w0) of
              (Some err, c1, w1) \<Rightarrow>
                (Some (OtherError ''callback failed''), c3, w3) = (Some err, c1\<lparr>lock := Some Unlocked\<rparr>, w1) \<and>
                proc_caps w3 = proc_caps w0 \<and>
                active_ring_is Unprivileged c3 w3 = active_ring_is Unprivileged c0 w0
            | (None, c1, w1) \<Rightarrow>
                (\<exists>c2 errCb w2.
                   Capabilities_unset Requested [cap_SYS_ADMIN] c1 = Returns (None, c2) \<and>
                   cb_fails w1 = Returns (errCb, w2) \<and>
                   (case Capabilities_apply Unprivileged (c2, w2) of
                      (Some err, c3', w3') \<Rightarrow>
                        (Some (OtherError ''callback failed''), c3, w3) = (Some err, c3'\<lparr>lock := Some Unlocked\<rparr>, w3')
                    | (None, c3', w3') \<Rightarrow>
                        (Some (OtherError ''callback failed''), c3, w3) =
                          (errCb, c3'\<lparr>lock := Some Unlocked\<rparr>, w3') \<and>
                        active_ring_is Unprivileged c3 w3))"
    by auto
  from apply_succeeds[OF f0, of Requested cs] obtain p5 v5 where
    e5: "Capabilities_apply Requested (cs, w0) = (None, p5, v5)" and g5: "faults v5 = []" by blast
  from t5 e5 obtain p6 where
    u6: "Capabilities_unset Requested [cap_SYS_ADMIN] p5 = Returns (None, p6)"
    and t6: "case Capabilities_apply Unprivileged (p6, v5) of
               (Some err, c3', w3') \<Rightarrow>
                 (Some (OtherError ''callback failed''), c3, w3) = (Some err, c3'\<lparr>lock := Some Unlocked\<rparr>, w3')
             | (None, c3', w3') \<Rightarrow>
                 (Some (OtherError ''callback failed''), c3, w3) =
                   (Some (OtherError ''callback failed''), c3'\<lparr>lock := Some Unlocked\<rparr>, w3') \<and>
                 active_ring_is Unprivileged c3 w3"
    by (auto simp: callbacks_keep_world)
  from apply_succeeds[OF g5, of Unprivileged p6] obtain p7 v7 where
    e7: "Capabilities_apply Unprivileged (p6, v5) = (None, p7, v7)" by blast
  from t6 e7 have a3: "active_ring_is Unprivileged c3 w3" by auto
  \<comment> \<open>Required, the elevating apply failing\<close>
  define ws where "ws = w0\<lparr>faults := [Some (Errno 1)]\<rparr>"
  define c4 where "c4 = c0\<lparr>have_set := None\<rparr>"
  define w4 where "w4 = ws\<lparr>faults := [], oslog := oslog ws @ [OsGetPID]\<rparr>"
  have fs: "faults ws = [Some (Errno 1)]" by (simp add: ws_def)
  from apply_query_fails[OF fs, of Required c0]
  have q: "Capabilities_apply Required (c0, ws) = (Some (couldNotGetProc (Errno 1)), c4, w4)"
    by (simp add: c4_def w4_def)
  then have r4: "Capabilities_Required cb_ok (c0, ws) = Returns (Some (couldNotGetProc (Errno 1)), c4, w4)"
    by (simp add: Required_eq[OF nb lk])
  from ring_restored_unless_restore_failed[where cb = cb_ok and w = ws
      and e = "Some (couldNotGetProc (Errno 1))" and c' = c4 and w' = w4, OF nb d,
      THEN conjunct2, THEN conjunct1] r4 apply_held[OF q]
  have "proc_caps w4 = proc_caps ws" "active_ring_is Unprivileged c4 w4 = active_ring_is Unprivileged c0 ws"
    by auto
  moreover have "active_ring_is Unprivileged c0 ws = active_ring_is Unprivileged c0 w0" "proc_caps ws = proc_caps w0"
    by (simp_all add: active_ring_is_def ws_def)
  ultimately have a4: "proc_caps w4 = proc_caps w0" "active_ring_is Unprivileged c4 w4"
    using act0 by simp_all
  from init nb d act0 r1 a1 r2 a2 r3 a3 r4 a4 show ?thesis unfolding ws_def by blast
qed

text \<open>
  The claim as it was stated fails when the restoring apply fails: on the example
  platform, with the capability query after the callback failing, \<open>Privileged\<close> returns
  that error and ring \<open>Privileged\<close> is still the active one. A call of \<open>Required\<close>
  made from there, its own first query failing, returns with ring \<open>Privileged\<close> active
  as well.
\<close>

theorem ring_stays_elevated_counterexample:
  "(case returned (NewCapabilities example_platform False (Capabilities_zero, example_world None [])) of
      None \<Rightarrow> False
    | Some (e0, c0, w0) \<Rightarrow>
        e0 = None \<and> \<not> bypass c0 \<and>
        (case returned (Capabilities_Privileged cb_ok
                          (c0, w0\<lparr>faults := replicate 43 None @ [Some (Errno 1)]\<rparr>)) of
           None \<Rightarrow> False
         | Some (e, c, w) \<Rightarrow>
             e = Some (couldNotGetProc (Errno 1)) \<and> active_ring_is Privileged c w \<and>
             \<not> active_ring_is Unprivileged c w \<and>
             (case returned (Capabilities_Required cb_ok (c, w\<lparr>faults := [Some (Errno 1)]\<rparr>)) of
                None \<Rightarrow> False
              | Some (e2, c2, w2) \<Rightarrow>
                  e2 = Some (couldNotGetProc (Errno 1)) \<and> active_ring_is Privileged c2 w2 \<and>
                  \<not> active_ring_is Unprivileged c2 w2)))"
proof -
  from example_start[of None] obtain c0 w0 where
    init: "NewCapabilities example_platform False (Capabilities_zero, example_world None []) = Returns (None, c0, w0)"
    and nb: "\<not> bypass c0" and lk: "lock c0 = Some Unlocked"
    and d: "distinct (map fst (all c0))" and len: "length (all c0) = 41"
    and keys: "fst ` set (all c0) = {0..<41}"
    and mp: "\<forall>k. Membership c0 k Privileged = (k < 41)" and mu: "\<forall>k. \<not> Membership c0 k Unprivileged"
    by blast
  define ws where "ws = w0\<lparr>faults := replicate 43 None @ [Some (Errno 1)]\<rparr>"
  have "faults ws = replicate (length (all c0) + 2) None @ [Some (Errno 1)]"
    by (simp add: ws_def len)
  from apply_consumes[OF this, of Privileged] obtain c1 w1 where
    a1: "Capabilities_apply Privileged (c0, ws) = (None, c1, w1)" and f1: "faults w1 = [Some (Errno 1)]"
    by blast
  note fr1 = apply_frame[OF a1]
  from active_ring_after_apply[OF a1 d] have act1: "active_ring_is Privileged c1 w1" .
  define c where "c = c1\<lparr>have_set := None\<rparr>"
  define w where "w = w1\<lparr>faults := [], oslog := oslog w1 @ [OsGetPID]\<rparr>"
  from apply_query_fails[OF f1, of Unprivileged c1]
  have a3: "Capabilities_apply Unprivileged (c1, w1) = (Some (couldNotGetProc (Errno 1)), c, w)"
    by (simp add: c_def w_def)
  from a1 a3 have run: "Capabilities_Privileged cb_ok (c0, ws) = Returns (Some (couldNotGetProc (Errno 1)), c, w)"
    by (simp add: Privileged_eq[OF nb lk] callbacks_keep_world)
  have allc: "all c = all c0" using fr1 by (simp add: c_def)
  from act1 have act: "active_ring_is Privileged c w"
    by (simp add: active_ring_is_def c_def w_def)
  have dc: "distinct (map fst (all c))" using d allc by simp
  have kc: "0 \<in> fst ` set (all c)" using keys allc by simp
  have neq: "Membership c 0 Privileged \<noteq> Membership c 0 Unprivileged"
    using mp mu Membership_cong[OF allc] by simp
  from rings_differ[OF dc kc neq act] have nact: "\<not> active_ring_is Unprivileged c w" .
  \<comment> \<open>the next call, its elevating apply failing\<close>
  have nbc: "\<not> bypass c" and lkc: "lock c = Some Unlocked" using fr1 nb lk by (simp_all add: c_def)
  define wt where "wt = w\<lparr>faults := [Some (Errno 1)]\<rparr>"
  define c2 where "c2 = c\<lparr>have_set := None\<rparr>"
  define w2 where "w2 = wt\<lparr>faults := [], oslog := oslog wt @ [OsGetPID]\<rparr>"
  have "faults wt = [Some (Errno 1)]" by (simp add: wt_def)
  from apply_query_fails[OF this, of Required c]
  have "Capabilities_apply Required (c, wt) = (Some (couldNotGetProc (Errno 1)), c2, w2)"
    by (simp add: c2_def w2_def)
  then have run2: "Capabilities_Required cb_ok (c, wt) = Returns (Some (couldNotGetProc (Errno 1)), c2, w2)"
    by (simp add: Required_eq[OF nbc lkc])
  from act have act2: "active_ring_is Privileged c2 w2"
    by (simp add: active_ring_is_def c2_def w2_def wt_def)
  from nact have nact2: "\<not> active_ring_is Unprivileged c2 w2"
    by (simp add: active_ring_is_def c2_def w2_def wt_def)
  from init nb run act nact run2 act2 nact2 show ?thesis
    by (simp add: returned_def ws_def wt_def)
qed

text \<open>
  Claim C6 (the fixed columns). After a successful \<open>NewCapabilities(false)\<close> and any run of
  \<open>Require\<close>, \<open>Unrequire\<close>, \<open>Privileged\<close>, \<open>Required\<close> and \<open>Requested\<close> calls that
  has returned, every capability below \<open>MaxBits\<close> is a member of ring \<open>Privileged\<close> and
  none is a member of ring \<open>Unprivileged\<close>; for every value the two columns are what
  they were when the initialization returned.
\<close>

theorem privileged_and_unprivileged_columns_fixed:
  assumes init: "NewCapabilities pf False (Caps, w0) = Returns (None, c0, w1)"
    and run: "api_run calls (c0, w1) = Returns (c, w)"
  shows "(\<forall>k. k < MaxBits pf \<longrightarrow> Membership c k Privileged \<and> \<not> Membership c k Unprivileged) \<and>
         (\<forall>k. Membership c k Privileged = Membership c0 k Privileged \<and>
              Membership c k Unprivileged = Membership c0 k Unprivileged)"
proof -
  note p = NewCapabilities_post[OF init]
  from p have nb0: "\<not> bypass c0" and l0: "lock c0 = Some Unlocked" by simp_all
  from api_run_keeps[OF nb0 l0 run] p show ?thesis by simp
qed

theorem privileged_and_unprivileged_columns_fixed_witness:
  "\<exists>c0 w1 c w.
     NewCapabilities example_platform False (Capabilities_zero, example_world None []) = Returns (None, c0, w1) \<and>
     api_run [Require [cap_SYS_ADMIN], Unrequire [cap_IPC_LOCK], RunPrivileged cb_ok,
              RunRequired cb_fails, RunRequested cb_ok [cap_BPF]] (c0, w1) = Returns (c, w) \<and>
     Membership c cap_BPF Privileged \<and> \<not> Membership c cap_BPF Unprivileged \<and>
     Membership c0 cap_BPF Privileged \<and> \<not> Membership c0 cap_BPF Unprivileged"
proof -
  from NewCapabilities_succeeds[OF example_facts(3) example_facts(1), of Capabilities_zero None]
  obtain c0 w1 where
    init: "NewCapabilities example_platform False (Capabilities_zero, example_world None []) = Returns (None, c0, w1)"
    and f1: "faults w1 = []" by blast
  from NewCapabilities_post[OF init] have nb0: "\<not> bypass c0" and l0: "lock c0 = Some Unlocked"
    and k0: "map fst (all c0) = [0..<41]" by (simp_all add: example_facts)
  from k0 have keys0: "fst ` set (all c0) = {0..<41}" by (metis list.set_map set_upt)
  then have "set [cap_SYS_ADMIN] \<subseteq> fst ` set (all c0)" by (simp add: cap_SYS_ADMIN_def)
  from Require_succeeds[OF nb0 l0 this] obtain c1 where
    r1: "Capabilities_Require [cap_SYS_ADMIN] c0 = Returns (None, c1)" by blast
  note s1 = Require_step[OF nb0 l0 r1]
  from s1 have nb1: "\<not> bypass c1" and l1: "lock c1 = Some Unlocked" by simp_all
  from s1 keys0 have keys1: "fst ` set (all c1) = {0..<41}" by (metis list.set_map)
  then have "set [cap_IPC_LOCK] \<subseteq> fst ` set (all c1)" by (simp add: cap_IPC_LOCK_def)
  from Unrequire_succeeds[OF nb1 l1 this] obtain c2 where
    r2: "Capabilities_Unrequire [cap_IPC_LOCK] c1 = Returns (None, c2)" by blast
  note s2 = Unrequire_step[OF nb1 l1 r2]
  from s2 have nb2: "\<not> bypass c2" and l2: "lock c2 = Some Unlocked" by simp_all
  from s2 keys1 have keys2: "fst ` set (all c2) = {0..<41}" by (metis list.set_map)
  from Privileged_succeeds[OF nb2 l2 f1, of cb_ok None] obtain c3 w3 where
    r3: "Capabilities_Privileged cb_ok (c2, w1) = Returns (None, c3, w3)" and f3: "faults w3 = []"
    by (auto simp: callbacks_keep_world)
  have st3: "api_step (RunPrivileged cb_ok) (c2, w1) = Returns (None, c3, w3)" using r3 by simp
  note s3 = api_step_keeps[OF nb2 st3]
  from s3 have nb3: "\<not> bypass c3" and l3: "lock c3 = Some Unlocked" by simp_all
  from s3 keys2 have keys3: "fst ` set (all c3) = {0..<41}" by (metis list.set_map)
  from Required_succeeds[OF nb3 l3 f3, of cb_fails "Some (OtherError ''callback failed'')"]
  obtain c4 w4 where
    r4: "Capabilities_Required cb_fails (c3, w3) = Returns (Some (OtherError ''callback failed''), c4, w4)"
    and f4: "faults w4 = []"
    by (auto simp: callbacks_keep_world)
  have st4: "api_step (RunRequired cb_fails) (c3, w3) = Returns (Some (OtherError ''callback failed''), c4, w4)"
    using r4 by simp
  note s4 = api_step_keeps[OF nb3 st4]
  from s4 have nb4: "\<not> bypass c4" and l4: "lock c4 = Some Unlocked" by simp_all
  from s4 keys3 have keys4: "fst ` set (all c4) = {0..<41}" by (metis list.set_map)
  then have "set [cap_BPF] \<subseteq> fst ` set (all c4)" by (simp add: cap_BPF_def)
  from Requested_succeeds[OF nb4 l4 f4, of cb_ok None "[cap_BPF]"] this obtain c w where
    r5: "Capabilities_Requested cb_ok [cap_BPF] (c4, w4) = Returns (None, c, w)"
    by (auto simp: callbacks_keep_world)
  from r1 r2 r3 r4 r5 have run:
    "api_run [Require [cap_SYS_ADMIN], Unrequire [cap_IPC_LOCK], RunPrivileged cb_ok,
              RunRequired cb_fails, RunRequested cb_ok [cap_BPF]] (c0, w1) = Returns (c, w)"
    by (simp add: and_then_def)
  have "cap_BPF < MaxBits example_platform" by (rule example_facts)
  with privileged_and_unprivileged_columns_fixed[OF init run] init run show ?thesis by blast
qed

text \<open>
  Claim C7 (bypass mode). \<open>initialize(true)\<close> only raises the bypass flag: it returns no
  error and leaves the world and every other field alone. On the manager it leaves,
  \<open>Require\<close> and \<open>Unrequire\<close> return no error and the same manager at once, and each
  of \<open>Privileged\<close>, \<open>Required\<close> and \<open>Requested\<close> hands the world it was called in
  to the callback and returns exactly what the callback returned, error and world, with
  the manager untouched; when the callback panics or blocks so does the method. The
  table and the mutex may be nil (as they are after \<open>NewCapabilities(true)\<close>): none of
  the five reads them.
\<close>

theorem bypass_is_passthrough:
  assumes "Capabilities_initialize pf True (c0, w0) = Returns (e0, c, w1)"
  shows "e0 = None \<and> c = c0\<lparr>bypass := True\<rparr> \<and> w1 = w0 \<and>
         Capabilities_Require values c = Returns (None, c) \<and>
         Capabilities_Unrequire values c = Returns (None, c) \<and>
         Capabilities_Privileged cb (c, w) = and_then (cb w) (\<lambda>(errCb, w2). Returns (errCb, c, w2)) \<and>
         Capabilities_Required cb (c, w) = and_then (cb w) (\<lambda>(errCb, w2). Returns (errCb, c, w2)) \<and>
         Capabilities_Requested cb values (c, w) = and_then (cb w) (\<lambda>(errCb, w2). Returns (errCb, c, w2))"
proof -
  from assms have c: "c = c0\<lparr>bypass := True\<rparr>" and e0: "e0 = None" and w1: "w1 = w0"
    by (simp_all add: Capabilities_initialize_def)
  from c have "bypass c" by simp
  with c e0 w1 show ?thesis
    by (simp add: Capabilities_Require_def Capabilities_Unrequire_def Capabilities_Privileged_def
          Capabilities_Required_def Capabilities_Requested_def)
qed

theorem bypass_is_passthrough_witness:
  "Capabilities_initialize example_platform True (Capabilities_zero, example_world None []) =
     Returns (None, Capabilities_zero\<lparr>bypass := True\<rparr>, example_world None []) \<and>
   lock (Capabilities_zero\<lparr>bypass := True\<rparr>) = None \<and>
   Capabilities_Require [cap_SYS_ADMIN] (Capabilities_zero\<lparr>bypass := True\<rparr>) =
     Returns (None, Capabilities_zero\<lparr>bypass := True\<rparr>) \<and>
   Capabilities_Unrequire [cap_SYS_ADMIN] (Capabilities_zero\<lparr>bypass := True\<rparr>) =
     Returns (None, Capabilities_zero\<lparr>bypass := True\<rparr>) \<and>
   Capabilities_Privileged cb_fails (Capabilities_zero\<lparr>bypass := True\<rparr>, example_world None []) =
     Returns (Some (OtherError ''callback failed''), Capabilities_zero\<lparr>bypass := True\<rparr>,
              example_world None []) \<and>
   Capabilities_Requested cb_ok [cap_SYS_ADMIN] (Capabilities_zero\<lparr>bypass := True\<rparr>, example_world None []) =
     Returns (None, Capabilities_zero\<lparr>bypass := True\<rparr>, example_world None [])"
proof -
  have h: "Capabilities_initialize example_platform True (Capabilities_zero, example_world None []) =
     Returns (None, Capabilities_zero\<lparr>bypass := True\<rparr>, example_world None [])"
    by (simp add: Capabilities_initialize_def)
  from bypass_is_passthrough[OF h, of "[cap_SYS_ADMIN]" cb_fails "example_world None []"]
       bypass_is_passthrough[OF h, of "[cap_SYS_ADMIN]" cb_ok "example_world None []"] h
  show ?thesis
    by (simp add: and_then_def callbacks_keep_world Capabilities_zero_def)
qed

text \<open>
  Claim C8 (the tunable cannot be read or parsed). Then
  \<open>getKernelPerfEventParanoidValue\<close> yields 4 beside its error, and
  \<open>NewCapabilities(false)\<close> goes on: it succeeds whenever no library call fails (and
  \<open>cap.BPF\<close> is below \<open>MaxBits\<close>), it never returns the error of the tunable, and when
  it succeeds ring \<open>Required\<close> holds \<open>IPC_LOCK\<close>, \<open>SYS_RESOURCE\<close> and \<open>SYS_ADMIN\<close> and
  is the ring that any successful initialization with a tunable above 2 and the same
  answer to "is \<open>cap.BPF\<close> permitted" produces.
\<close>

theorem unreadable_tunable_is_not_fatal:
  assumes bad: "perf_event_paranoid w0 = None \<or>
                (\<exists>content. perf_event_paranoid w0 = Some content \<and>
                            ParseInt pf (TrimSuffix content [CHR 0x0A]) = None)"
  shows "getKernelPerfEventParanoidValue pf w0 = (4, Some couldNotReadPerfEventParanoid) \<and>
         (faults w0 = [] \<and> cap_BPF < MaxBits pf \<longrightarrow>
            (\<exists>c w. NewCapabilities pf False (Caps, w0) = Returns (None, c, w))) \<and>
         (\<forall>e c w. NewCapabilities pf False (Caps, w0) = Returns (e, c, w) \<longrightarrow>
            e \<noteq> Some couldNotReadPerfEventParanoid) \<and>
         (\<forall>c w. NewCapabilities pf False (Caps, w0) = Returns (None, c, w) \<longrightarrow>
            Membership c cap_IPC_LOCK Required \<and> Membership c cap_SYS_RESOURCE Required \<and>
            Membership c cap_SYS_ADMIN Required \<and>
            (\<forall>Caps' w0' c' w'.
               2 < fst (getKernelPerfEventParanoidValue pf w0') \<and>
               (cap_BPF \<in> proc_caps w0' Permitted) = (cap_BPF \<in> proc_caps w0 Permitted) \<and>
               NewCapabilities pf False (Caps', w0') = Returns (None, c', w') \<longrightarrow>
               (\<forall>k. Membership c' k Required = Membership c k Required)))"
proof -
  from bad have four: "getKernelPerfEventParanoidValue pf w0 = (4, Some couldNotReadPerfEventParanoid)"
    by (auto simp: getKernelPerfEventParanoidValue_def)
  have succ: "faults w0 = [] \<and> cap_BPF < MaxBits pf \<longrightarrow>
            (\<exists>c w. NewCapabilities pf False (Caps, w0) = Returns (None, c, w))"
    using NewCapabilities_succeeds[of w0 pf Caps] by blast
  have noerr: "e \<noteq> Some couldNotReadPerfEventParanoid"
    if "NewCapabilities pf False (Caps, w0) = Returns (e, c, w)" for e c w
    using NewCapabilities_post[OF that] by auto
  have ring: "Membership c cap_IPC_LOCK Required \<and> Membership c cap_SYS_RESOURCE Required \<and>
            Membership c cap_SYS_ADMIN Required \<and>
            (\<forall>Caps' w0' c' w'.
               2 < fst (getKernelPerfEventParanoidValue pf w0') \<and>
               (cap_BPF \<in> proc_caps w0' Permitted) = (cap_BPF \<in> proc_caps w0 Permitted) \<and>
               NewCapabilities pf False (Caps', w0') = Returns (None, c', w') \<longrightarrow>
               (\<forall>k. Membership c' k Required = Membership c k Required))"
    if init: "NewCapabilities pf False (Caps, w0) = Returns (None, c, w)" for c w
  proof -
    from NewCapabilities_post[OF init] four
    have req: "\<forall>k. Membership c k Required =
       (k \<in> {cap_IPC_LOCK, cap_SYS_RESOURCE, cap_SYS_ADMIN} \<union>
             (if cap_BPF \<in> proc_caps w0 Permitted then {cap_BPF, cap_PERFMON} else {}))"
      by auto
    have "\<forall>k. Membership c' k Required = Membership c k Required"
      if h: "2 < fst (getKernelPerfEventParanoidValue pf w0')"
        "(cap_BPF \<in> proc_caps w0' Permitted) = (cap_BPF \<in> proc_caps w0 Permitted)"
        "NewCapabilities pf False (Caps', w0') = Returns (None, c', w')" for Caps' w0' c' w'
      using NewCapabilities_post[OF h(3)] h(1,2) req by auto
    with req show ?thesis by auto
  qed
  from four succ noerr ring show ?thesis by blast
qed

theorem unreadable_tunable_is_not_fatal_witness:
  "(perf_event_paranoid (example_world None []) = None \<or>
    (\<exists>content. perf_event_paranoid (example_world None []) = Some content \<and>
                ParseInt example_platform (TrimSuffix content [CHR 0x0A]) = None)) \<and>
   getKernelPerfEventParanoidValue example_platform (example_world None []) =
     (4, Some couldNotReadPerfEventParanoid) \<and>
   faults (example_world None []) = [] \<and> cap_BPF < MaxBits example_platform \<and>
   (\<exists>c w c' w'.
      NewCapabilities example_platform False (Capabilities_zero, example_world None []) = Returns (None, c, w) \<and>
      Membership c cap_IPC_LOCK Required \<and> Membership c cap_SYS_RESOURCE Required \<and>
      Membership c cap_SYS_ADMIN Required \<and>
      2 < fst (getKernelPerfEventParanoidValue example_platform (example_world (Some [CHR ''3'', CHR 0x0A]) [])) \<and>
      (cap_BPF \<in> proc_caps (example_world (Some [CHR ''3'', CHR 0x0A]) []) Permitted) =
        (cap_BPF \<in> proc_caps (example_world None []) Permitted) \<and>
      NewCapabilities example_platform False
        (Capabilities_zero, example_world (Some [CHR ''3'', CHR 0x0A]) []) = Returns (None, c', w') \<and>
      Membership c' cap_PERFMON Required = Membership c cap_PERFMON Required \<and>
      Membership c' cap_SYS_ADMIN Required = Membership c cap_SYS_ADMIN Required) \<and>
   perf_event_paranoid (example_world (Some ''not a number'') []) = Some ''not a number'' \<and>
   ParseInt example_platform (TrimSuffix ''not a number'' [CHR 0x0A]) = None \<and>
   getKernelPerfEventParanoidValue example_platform (example_world (Some ''not a number'') []) =
     (4, Some couldNotReadPerfEventParanoid)"
proof -
  have g1: "perf_event_paranoid (example_world (Some ''not a number'') []) = Some ''not a number''"
    by (simp add: example_world_def)
  have g2: "ParseInt example_platform (TrimSuffix ''not a number'' [CHR 0x0A]) = None"
    by (simp add: example_platform_def TrimSuffix_def suffix_def example_ParseInt_def digit_value_def)
  from g1 g2 have bad2: "perf_event_paranoid (example_world (Some ''not a number'') []) = None \<or>
    (\<exists>content. perf_event_paranoid (example_world (Some ''not a number'') []) = Some content \<and>
                ParseInt example_platform (TrimSuffix content [CHR 0x0A]) = None)"
    by blast
  from unreadable_tunable_is_not_fatal[OF bad2, of Capabilities_zero]
  have g3: "getKernelPerfEventParanoidValue example_platform (example_world (Some ''not a number'') []) =
     (4, Some couldNotReadPerfEventParanoid)" by blast
  have bad: "perf_event_paranoid (example_world None []) = None \<or>
    (\<exists>content. perf_event_paranoid (example_world None []) = Some content \<and>
                ParseInt example_platform (TrimSuffix content [CHR 0x0A]) = None)"
    by (simp add: example_world_def)
  note t = unreadable_tunable_is_not_fatal[OF bad, of Capabilities_zero]
  from t have four: "getKernelPerfEventParanoidValue example_platform (example_world None []) =
     (4, Some couldNotReadPerfEventParanoid)" by blast
  from t example_facts(1) example_facts(3)[of None] obtain c w where
    init: "NewCapabilities example_platform False (Capabilities_zero, example_world None []) = Returns (None, c, w)"
    by blast
  from NewCapabilities_succeeds[OF example_facts(3) example_facts(1), of Capabilities_zero "Some [CHR ''3'', CHR 0x0A]"]
  obtain c' w' where
    init': "NewCapabilities example_platform False
        (Capabilities_zero, example_world (Some [CHR ''3'', CHR 0x0A]) []) = Returns (None, c', w')"
    by blast
  have hi: "2 < fst (getKernelPerfEventParanoidValue example_platform (example_world (Some [CHR ''3'', CHR 0x0A]) []))"
    by (simp add: example_paranoid)
  have same: "(cap_BPF \<in> proc_caps (example_world (Some [CHR ''3'', CHR 0x0A]) []) Permitted) =
        (cap_BPF \<in> proc_caps (example_world None []) Permitted)"
    by (simp add: example_world_def)
  from t init have three: "Membership c cap_IPC_LOCK Required \<and> Membership c cap_SYS_RESOURCE Required \<and>
      Membership c cap_SYS_ADMIN Required" by blast
  from t init hi same init' have eq: "\<forall>k. Membership c' k Required = Membership c k Required"
    by blast
  from init three hi same init' eq have ex: "\<exists>c w c' w'.
      NewCapabilities example_platform False (Capabilities_zero, example_world None []) = Returns (None, c, w) \<and>
      Membership c cap_IPC_LOCK Required \<and> Membership c cap_SYS_RESOURCE Required \<and>
      Membership c cap_SYS_ADMIN Required \<and>
      2 < fst (getKernelPerfEventParanoidValue example_platform (example_world (Some [CHR ''3'', CHR 0x0A]) [])) \<and>
      (cap_BPF \<in> proc_caps (example_world (Some [CHR ''3'', CHR 0x0A]) []) Permitted) =
        (cap_BPF \<in> proc_caps (example_world None []) Permitted) \<and>
      NewCapabilities example_platform False
        (Capabilities_zero, example_world (Some [CHR ''3'', CHR 0x0A]) []) = Returns (None, c', w') \<and>
      Membership c' cap_PERFMON Required = Membership c cap_PERFMON Required \<and>
      Membership c' cap_SYS_ADMIN Required = Membership c cap_SYS_ADMIN Required"
    by blast
  from bad four example_facts(1) example_facts(3)[of None] ex g1 g2 g3
  show ?thesis by (intro conjI)
qed

text \<open>
  Claim C9 (name resolution). \<open>ReqByString\<close> fails exactly when some given name is
  the name of no capability below \<open>MaxBits\<close>, and the error then carries the first such
  name in the order given, with no list beside it; otherwise it returns, name after name,
  the values that bear the name, so every given name has a value in the result and the
  result holds nothing else. The function takes the platform and the names only: the
  manager is none of its arguments and none of its results.
\<close>

theorem ReqByString_first_unknown_name:
  "ReqByString pf names =
     (case find (\<lambda>n. n \<notin> set (ListAvailCaps pf)) names of
        Some n \<Rightarrow> Inl (couldNotFindCapability n)
      | None \<Rightarrow> Inr (concat (map (\<lambda>n. filter (\<lambda>v. cap_String pf v = n) [0..<MaxBits pf]) names))) \<and>
   (\<forall>caps. ReqByString pf names = Inr caps \<longrightarrow>
      (\<forall>n \<in> set names. \<exists>v \<in> set caps. v < MaxBits pf \<and> cap_String pf v = n) \<and>
      (\<forall>v \<in> set caps. v < MaxBits pf \<and> cap_String pf v \<in> set names))"
proof -
  have eq: "ReqByString pf names =
     (case find (\<lambda>n. n \<notin> set (ListAvailCaps pf)) names of
        Some n \<Rightarrow> Inl (couldNotFindCapability n)
      | None \<Rightarrow> Inr (concat (map (\<lambda>n. filter (\<lambda>v. cap_String pf v = n) [0..<MaxBits pf]) names)))"
    by (simp add: ReqByString_def ReqByString_loop_find split: option.split)
  have "(\<forall>n \<in> set names. \<exists>v \<in> set caps. v < MaxBits pf \<and> cap_String pf v = n) \<and>
        (\<forall>v \<in> set caps. v < MaxBits pf \<and> cap_String pf v \<in> set names)"
    if r: "ReqByString pf names = Inr caps" for caps
  proof -
    from r eq have none: "find (\<lambda>n. n \<notin> set (ListAvailCaps pf)) names = None"
      and caps: "caps = concat (map (\<lambda>n. filter (\<lambda>v. cap_String pf v = n) [0..<MaxBits pf]) names)"
      by (auto split: option.splits)
    from none have known: "\<forall>n \<in> set names. n \<in> set (ListAvailCaps pf)"
      by (simp add: find_None_iff)
    show ?thesis
    proof (intro conjI ballI)
      fix n assume n: "n \<in> set names"
      with known have "n \<in> set (ListAvailCaps pf)" by simp
      then obtain v where "v < MaxBits pf" "cap_String pf v = n"
        by (auto simp: ListAvailCaps_def)
      with n caps show "\<exists>v \<in> set caps. v < MaxBits pf \<and> cap_String pf v = n"
        by auto
    next
      fix v assume "v \<in> set caps"
      with caps show "v < MaxBits pf" by auto
    next
      fix v assume "v \<in> set caps"
      with caps show "cap_String pf v \<in> set names" by auto
    qed
  qed
  with eq show ?thesis by blast
qed

theorem ReqByString_first_unknown_name_witness:
  "ReqByString example_platform [''cap_sys_admin'', ''cap_bpf''] = Inr [21, 39] \<and>
   ReqByString example_platform [''cap_sys_admin'', ''CAP_BOGUS'', ''cap_nothing''] =
     Inl (couldNotFindCapability ''CAP_BOGUS'')"
proof -
  have a: "ReqByString example_platform [''cap_sys_admin'', ''cap_bpf''] = Inr [21, 39]"
    using ReqByString_first_unknown_name[of example_platform "[''cap_sys_admin'', ''cap_bpf'']"]
    unfolding example_ListAvailCaps
    by (simp add: example_names_def example_platform_def example_upt)
  have b: "ReqByString example_platform [''cap_sys_admin'', ''CAP_BOGUS'', ''cap_nothing''] =
     Inl (couldNotFindCapability ''CAP_BOGUS'')"
    using ReqByString_first_unknown_name[of example_platform "[''cap_sys_admin'', ''CAP_BOGUS'', ''cap_nothing'']"]
    unfolding example_ListAvailCaps
    by (simp add: example_names_def)
  from a b show ?thesis by simp
qed

text \<open>
  Claim C10 (unknown capability values). After \<open>NewCapabilities(false)\<close> has returned and
  any run of calls has returned, a call of \<open>Require\<close>, \<open>Unrequire\<close> or \<open>Requested\<close>
  with a list that holds a value at or above \<open>MaxBits\<close> does not return an error: it
  panics, since the table has no inner map for that value and \<open>set\<close> and \<open>unset\<close>
  write into it unconditionally.
\<close>

theorem unknown_capability_panics:
  assumes init: "NewCapabilities pf False (Caps, w0) = Returns (e0, c0, w1)"
    and run: "api_run calls (c0, w1) = Returns (c, w)"
    and v: "v \<in> set values" "MaxBits pf \<le> v"
  shows "Capabilities_Require values c = Panics \<and>
         Capabilities_Unrequire values c = Panics \<and>
         Capabilities_Requested cb values (c, w') = Panics"
proof -
  from NewCapabilities_post[OF init] have nb0: "\<not> bypass c0" and l0: "lock c0 = Some Unlocked"
    and k0: "map fst (all c0) = [0..<MaxBits pf]" by simp_all
  from api_run_keeps[OF nb0 l0 run] k0 have nb: "\<not> bypass c" and lk: "lock c = Some Unlocked"
    and k: "map fst (all c) = [0..<MaxBits pf]" by simp_all
  from k have "fst ` set (all c) = {0..<MaxBits pf}" by (metis list.set_map set_upt)
  with v have out: "\<not> set values \<subseteq> fst ` set (all c)" by auto
  from set_Panics[OF out] unset_Panics[OF out] show ?thesis
    by (simp add: Require_eq[OF nb lk] Unrequire_eq[OF nb lk] Requested_eq[OF nb lk])
qed

theorem unknown_capability_panics_witness:
  "\<exists>c0 w1 c w.
     NewCapabilities example_platform False (Capabilities_zero, example_world None []) = Returns (None, c0, w1) \<and>
     api_run [Require [cap_SYS_ADMIN], RunRequired cb_ok] (c0, w1) = Returns (c, w) \<and>
     (41::nat) \<in> set [cap_IPC_LOCK, 41] \<and> MaxBits example_platform \<le> 41 \<and>
     Capabilities_Require [cap_IPC_LOCK, 41] c = Panics \<and>
     Capabilities_Unrequire [cap_IPC_LOCK, 41] c = Panics \<and>
     Capabilities_Requested cb_ok [cap_IPC_LOCK, 41] (c, w) = Panics"
proof -
  from NewCapabilities_succeeds[OF example_facts(3) example_facts(1), of Capabilities_zero None]
  obtain c0 w1 where
    init: "NewCapabilities example_platform False (Capabilities_zero, example_world None []) = Returns (None, c0, w1)"
    and f1: "faults w1 = []" by blast
  from NewCapabilities_post[OF init] have nb0: "\<not> bypass c0" and l0: "lock c0 = Some Unlocked"
    and k0: "map fst (all c0) = [0..<41]" by (simp_all add: example_facts)
  from k0 have "fst ` set (all c0) = {0..<41}" by (metis list.set_map set_upt)
  then have "set [cap_SYS_ADMIN] \<subseteq> fst ` set (all c0)" by (simp add: cap_SYS_ADMIN_def)
  from Require_succeeds[OF nb0 l0 this] obtain c1 where
    r1: "Capabilities_Require [cap_SYS_ADMIN] c0 = Returns (None, c1)" by blast
  from Require_step[OF nb0 l0 r1] have nb1: "\<not> bypass c1" and l1: "lock c1 = Some Unlocked"
    by simp_all
  from Required_succeeds[OF nb1 l1 f1, of cb_ok None] obtain c w where
    r2: "Capabilities_Required cb_ok (c1, w1) = Returns (None, c, w)"
    by (auto simp: callbacks_keep_world)
  from r1 r2 have run: "api_run [Require [cap_SYS_ADMIN], RunRequired cb_ok] (c0, w1) = Returns (c, w)"
    by (simp add: and_then_def)
  have v: "(41::nat) \<in> set [cap_IPC_LOCK, 41]" "MaxBits example_platform \<le> 41"
    by (simp_all add: example_facts)
  from unknown_capability_panics[OF init run v, of cb_ok w] init run v show ?thesis by blast
qed

end
